theory Spec2Isabelle
  imports Complex_Main "HOL-Library.Word"
begin

unbundle bit_operations_syntax

text \<open>
  A shallow embedding of \<open>ts_src/index.ts\<close> of the BIP-39 module: the conversion between
  entropy and mnemonic, the validation of a mnemonic, the derivation of the seed and the
  default wordlist. The definitions follow the source function by function and keep its
  names; the statements about them come after all definitions.
\<close>

section \<open>Data model\<close>

text \<open>
  A Node \<open>Buffer\<close> is a list of bytes. A JavaScript string is a sequence of UTF-16 code
  units; the strings the module builds itself (bit strings, the hexadecimal result, error
  messages, language keys) are ASCII and are kept as HOL strings.
\<close>

type_synonym byte = "8 word"
type_synonym buffer = "byte list"
type_synonym jsstring = "16 word list"

text \<open>An ASCII literal as a JavaScript string.\<close>

definition ascii :: "string \<Rightarrow> jsstring" where
  "ascii s = map (\<lambda>c. of_nat (of_char c)) s"

text \<open>
  The exceptions of the module: \<open>new Error(msg)\<close> and \<open>new TypeError(msg)\<close>, and the
  \<open>RangeError\<close> of a write outside a buffer.
\<close>

datatype js_error = Error string | TypeError string | RangeError string

text \<open>
  A call either does not return (\<open>None\<close>), throws (\<open>Some (Inl e)\<close>) or returns
  (\<open>Some (Inr v)\<close>).
\<close>

type_synonym 'a result = "(js_error + 'a) option"

definition INVALID_MNEMONIC :: string where
  "INVALID_MNEMONIC = ''Invalid mnemonic''"

definition INVALID_ENTROPY :: string where
  "INVALID_ENTROPY = ''Invalid entropy''"

definition INVALID_CHECKSUM :: string where
  "INVALID_CHECKSUM = ''Invalid mnemonic checksum''"

definition WORDLIST_REQUIRED :: string where
  "WORDLIST_REQUIRED =
     ''A wordlist is required but a default could not be found.'' @ [CHR 0x0A] @
     ''Please pass a 2048 word array explicitly.''"

text \<open>
  What \<open>chunks.map\<close> throws when \<open>String.prototype.match\<close> found nothing and returned
  \<open>null\<close> (the wording of the message is the engine's).
\<close>

definition NULL_MATCH :: string where
  "NULL_MATCH = ''Cannot read properties of null''"

text \<open>
  The functions the module takes from its platform and its dependencies. They are not
  code of the repository, so every function of the module takes them as a parameter:
  \<^item> \<open>nfkd\<close>: \<open>String.prototype.normalize('NFKD')\<close>;
  \<^item> \<open>utf8_bytes\<close>: \<open>Buffer.from(s, 'utf8')\<close>;
  \<^item> \<open>utf8_string\<close>: \<open>buf.toString('utf8')\<close>;
  \<^item> \<open>hex_bytes\<close>: \<open>Buffer.from(s, 'hex')\<close>;
  \<^item> \<open>sha256\<close>: \<open>createHash('sha256').update(b).digest()\<close>;
  \<^item> \<open>pbkdf2Sync\<close>: \<open>pbkdf2Sync(password, salt, iterations, keylen, digest)\<close>.
\<close>

record platform =
  nfkd :: "jsstring \<Rightarrow> jsstring"
  utf8_bytes :: "jsstring \<Rightarrow> buffer"
  utf8_string :: "buffer \<Rightarrow> jsstring"
  hex_bytes :: "jsstring \<Rightarrow> buffer"
  sha256 :: "buffer \<Rightarrow> buffer"
  pbkdf2Sync :: "buffer \<Rightarrow> buffer \<Rightarrow> nat \<Rightarrow> nat \<Rightarrow> string \<Rightarrow> buffer"

text \<open>
  The module's state: the registry \<open>wordlists\<close> imported from \<open>./_wordlists\<close> (language
  keys in the order \<open>Object.keys\<close> lists them) and the variable \<open>DEFAULT_WORDLIST\<close>.
\<close>

record state =
  wordlists :: "(string \<times> jsstring list) list"
  DEFAULT_WORDLIST :: "jsstring list option"

datatype mnemonic_arg = MStr jsstring | MBuf buffer

datatype entropy_arg = EStr jsstring | EBuf buffer

section \<open>Bit codec\<close>

text \<open>\<open>normalize(str)\<close>: \<open>(str || '').normalize('NFKD')\<close>; \<open>undefined\<close> and \<open>''\<close> are falsy.\<close>

definition normalize_str :: "platform \<Rightarrow> jsstring option \<Rightarrow> jsstring" where
  "normalize_str P str = nfkd P (case str of None \<Rightarrow> [] | Some s \<Rightarrow> (if s = [] then [] else s))"

text \<open>
  \<open>lpad(str, padString, length)\<close>: the \<open>while\<close> loop. With an empty \<open>padString\<close> and a
  short \<open>str\<close> it never ends, so the result is an option.
\<close>

partial_function (option) lpad :: "string \<Rightarrow> string \<Rightarrow> nat \<Rightarrow> string option" where
  "lpad str padString len =
     (if length str < len then lpad (padString @ str) padString len else Some str)"

text \<open>\<open>n.toString(2)\<close> of a non-negative integer.\<close>

fun toString2 :: "nat \<Rightarrow> string" where
  "toString2 n =
     (if n < 2 then [if n = 0 then CHR ''0'' else CHR ''1'']
      else toString2 (n div 2) @ [if n mod 2 = 0 then CHR ''0'' else CHR ''1''])"

declare toString2.simps [simp del]

definition is_bit :: "char \<Rightarrow> bool" where
  "is_bit c = (c = CHR ''0'' \<or> c = CHR ''1'')"

text \<open>
  \<open>binaryToByte(bin)\<close> is \<open>parseInt(bin, 2)\<close>: the value of the longest prefix of binary
  digits, \<open>NaN\<close> (here \<open>None\<close>) when there is none. Every caller passes a piece of a bit
  string, so \<open>parseInt\<close>'s leading white space and sign are not modelled.
\<close>

definition binaryToByte :: "string \<Rightarrow> nat option" where
  "binaryToByte bin =
     (let digits = takeWhile is_bit bin
      in if digits = [] then None
         else Some (foldl (\<lambda>acc c. 2 * acc + (if c = CHR ''1'' then 1 else 0)) 0 digits))"

text \<open>\<open>bytesToBinary(bytes)\<close>: each number padded to eight binary digits, joined.\<close>

definition bytesToBinary :: "nat list \<Rightarrow> string option" where
  "bytesToBinary bytes =
     map_option concat (those (map (\<lambda>x. lpad (toString2 x) ''0'' 8) bytes))"

text \<open>
  \<open>str.match(/(.{1,n})/g)\<close>: the string cut into consecutive pieces of \<open>n\<close> characters,
  the last one shorter when the length is no multiple of \<open>n\<close>; \<open>null\<close> (here \<open>None\<close>)
  when the string is empty. The strings cut are bit strings, so the line terminators that
  \<open>.\<close> does not match are not modelled.
\<close>

function chunks :: "nat \<Rightarrow> 'a list \<Rightarrow> 'a list list" where
  "chunks n xs = (if n = 0 \<or> xs = [] then [] else take n xs # chunks n (drop n xs))"
  by pat_completeness auto
termination
  by (relation "measure (\<lambda>(n, xs). length xs)") auto

declare chunks.simps [simp del]

definition match_chunks :: "nat \<Rightarrow> string \<Rightarrow> string list option" where
  "match_chunks n str = (if str = [] then None else Some (chunks n str))"

text \<open>\<open>buf.toString('hex')\<close>: two lower-case hexadecimal digits per byte.\<close>

definition hex_digit :: "nat \<Rightarrow> char" where
  "hex_digit d = (''0123456789abcdef'') ! d"

definition toHex :: "buffer \<Rightarrow> string" where
  "toHex buf = concat (map (\<lambda>b. [hex_digit (unat b div 16), hex_digit (unat b mod 16)]) buf)"

text \<open>\<open>Buffer.from(numbers)\<close>: every number is taken modulo 256, \<open>NaN\<close> becomes 0.\<close>

definition buffer_from_numbers :: "nat option list \<Rightarrow> buffer" where
  "buffer_from_numbers ns = map (\<lambda>x. case x of None \<Rightarrow> 0 | Some n \<Rightarrow> of_nat n) ns"

text \<open>\<open>array.indexOf(x)\<close>: the first position of \<open>x\<close>; \<open>None\<close> stands for \<open>-1\<close>.\<close>

fun indexOf :: "'a list \<Rightarrow> 'a \<Rightarrow> nat option" where
  "indexOf [] x = None"
| "indexOf (y # ys) x = (if y = x then Some 0 else map_option Suc (indexOf ys x))"

text \<open>\<open>array[index]\<close>: \<open>undefined\<close> (here \<open>None\<close>) out of range and for the index \<open>NaN\<close>.\<close>

definition element_at :: "'a list \<Rightarrow> nat option \<Rightarrow> 'a option" where
  "element_at xs index =
     (case index of None \<Rightarrow> None | Some i \<Rightarrow> (if i < length xs then Some (xs ! i) else None))"

text \<open>\<open>array.map(f)\<close> with a callback that may throw: the first throw ends the call.\<close>

fun map_result :: "('a \<Rightarrow> 'b result) \<Rightarrow> 'a list \<Rightarrow> 'b list result" where
  "map_result f [] = Some (Inr [])"
| "map_result f (x # xs) =
     (case f x of
        None \<Rightarrow> None
      | Some (Inl e) \<Rightarrow> Some (Inl e)
      | Some (Inr y) \<Rightarrow>
          (case map_result f xs of
             None \<Rightarrow> None
           | Some (Inl e) \<Rightarrow> Some (Inl e)
           | Some (Inr ys) \<Rightarrow> Some (Inr (y # ys))))"

section \<open>Checksum engine\<close>

text \<open>
  \<open>deriveChecksumBits(entropyBuffer)\<close>. \<open>CS = ENT / 32\<close> is a fraction when the length is
  no multiple of 4; \<open>slice(0, CS)\<close> truncates it.
\<close>

definition deriveChecksumBits :: "platform \<Rightarrow> buffer \<Rightarrow> string option" where
  "deriveChecksumBits P entropyBuffer =
     (let ENT = length entropyBuffer * 8;
          CS = ENT div 32;
          hash = sha256 P entropyBuffer
      in map_option (take CS) (bytesToBinary (map unat hash)))"

section \<open>Seed derivation\<close>

text \<open>
  \<open>salt(password)\<close>: \<open>'mnemonic' + (password || '')\<close>. The asynchronous
  \<open>mnemonicToSeed\<close> hands the same arguments to the callback form of PBKDF2; only the
  synchronous function is modelled.
\<close>

definition salt :: "jsstring option \<Rightarrow> jsstring" where
  "salt password =
     ascii ''mnemonic'' @ (case password of None \<Rightarrow> [] | Some p \<Rightarrow> (if p = [] then [] else p))"

definition mnemonicToSeedSync :: "platform \<Rightarrow> mnemonic_arg \<Rightarrow> jsstring option \<Rightarrow> buffer" where
  "mnemonicToSeedSync P mnemonic password =
     (let mnemonicBuffer =
            (case mnemonic of
               MStr str \<Rightarrow> utf8_bytes P (normalize_str P (Some str))
             | MBuf buf \<Rightarrow> buf);
          saltBuffer = utf8_bytes P (salt (Some (normalize_str P password)))
      in pbkdf2Sync P mnemonicBuffer saltBuffer 2048 64 ''sha512'')"

section \<open>Mnemonic codec\<close>

subsection \<open>\<open>mnemonicToEntropy\<close>\<close>

text \<open>
  The loop over the bytes of the mnemonic, with its two variables \<open>words\<close> and
  \<open>currentWord\<close>, and the \<open>words.push\<close> after it. A byte is a number from 0 to 255, and the
  loop compares that number with \<open>0x20\<close> and with \<open>0x3000\<close>.
\<close>

fun split_words :: "buffer \<Rightarrow> buffer list \<Rightarrow> buffer \<Rightarrow> buffer list" where
  "split_words [] words currentWord = words @ [currentWord]"
| "split_words (byte # rest) words currentWord =
     (if unat byte = 0x20 \<or> unat byte = 0x3000
      then split_words rest (words @ [currentWord]) []
      else split_words rest words (currentWord @ [byte]))"

text \<open>The callback of \<open>words.map\<close>: the word's index as eleven binary digits.\<close>

definition word_to_bits :: "platform \<Rightarrow> jsstring list \<Rightarrow> buffer \<Rightarrow> string result" where
  "word_to_bits P wordlist word =
     (case indexOf wordlist (utf8_string P word) of
        None \<Rightarrow> Some (Inl (Error INVALID_MNEMONIC))
      | Some index \<Rightarrow> map_option Inr (lpad (toString2 index) ''0'' 11))"

definition mnemonicToEntropy ::
    "platform \<Rightarrow> state \<Rightarrow> mnemonic_arg \<Rightarrow> jsstring list option \<Rightarrow> string result" where
  "mnemonicToEntropy P s mnemonic wordlist =
     (case (case wordlist of Some w \<Rightarrow> Some w | None \<Rightarrow> DEFAULT_WORDLIST s) of
        None \<Rightarrow> Some (Inl (Error WORDLIST_REQUIRED))
      | Some wordlist \<Rightarrow>
          (let mnemonicAsBuffer =
                 (case mnemonic of
                    MStr str \<Rightarrow> utf8_bytes P (normalize_str P (Some str))
                  | MBuf buf \<Rightarrow> buf);
               words = split_words mnemonicAsBuffer [] []
           in if length words mod 3 \<noteq> 0 then Some (Inl (Error INVALID_MNEMONIC))
              else
                (case map_result (word_to_bits P wordlist) words of
                   None \<Rightarrow> None
                 | Some (Inl e) \<Rightarrow> Some (Inl e)
                 | Some (Inr bitss) \<Rightarrow>
                     (let bits = concat bitss;
                          dividerIndex = (length bits div 33) * 32;
                          entropyBits = take dividerIndex bits;
                          checksumBits = drop dividerIndex bits
                      in case match_chunks 8 entropyBits of
                           None \<Rightarrow> Some (Inl (TypeError NULL_MATCH))
                         | Some pieces \<Rightarrow>
                             (let entropyBytes = map binaryToByte pieces
                              in if length entropyBytes < 16 then Some (Inl (Error INVALID_ENTROPY))
                                 else if length entropyBytes > 32 then Some (Inl (Error INVALID_ENTROPY))
                                 else if length entropyBytes mod 4 \<noteq> 0
                                   then Some (Inl (Error INVALID_ENTROPY))
                                 else
                                   (let entropy = buffer_from_numbers entropyBytes
                                    in case deriveChecksumBits P entropy of
                                         None \<Rightarrow> None
                                       | Some newChecksum \<Rightarrow>
                                           (if newChecksum \<noteq> checksumBits
                                            then Some (Inl (Error INVALID_CHECKSUM))
                                            else Some (Inr (toHex entropy)))))))))"

subsection \<open>\<open>entropyToMnemonic\<close>\<close>

text \<open>The first word of the Japanese wordlist, as the source writes it.\<close>

definition JAPANESE_FIRST_WORD :: jsstring where
  "JAPANESE_FIRST_WORD = [0x3042, 0x3044, 0x3053, 0x304f, 0x3057, 0x3093]"

text \<open>
  \<open>target.set(source, offset)\<close> of a typed array: a \<open>RangeError\<close> when the source does not
  fit at the offset.
\<close>

definition buffer_set :: "buffer \<Rightarrow> buffer \<Rightarrow> nat \<Rightarrow> js_error + buffer" where
  "buffer_set target source offset =
     (if offset + length source > length target then Inl (RangeError ''offset is out of bounds'')
      else Inr (take offset target @ source @ drop (offset + length source) target))"

text \<open>
  \<open>buf.write(string, offset, length, 'utf8')\<close>, for the one-character separator that the
  module writes (\<open>encoded\<close> is its UTF-8 encoding): a \<open>RangeError\<close> when the offset is
  beyond the buffer; Node writes no partial character, so the separator is written whole
  when it fits into \<open>length\<close> bytes and into the rest of the buffer, and not at all
  otherwise.
\<close>

definition buffer_write :: "buffer \<Rightarrow> buffer \<Rightarrow> nat \<Rightarrow> nat \<Rightarrow> js_error + buffer" where
  "buffer_write buf encoded offset len =
     (if offset > length buf then Inl (RangeError ''The value of offset is out of range'')
      else if length encoded \<le> min len (length buf - offset)
        then Inr (take offset buf @ encoded @ drop (offset + length encoded) buf)
      else Inr buf)"

text \<open>
  The first \<open>reduce\<close>: the size of the result. \<open>i\<close> is the index of the word and \<open>n\<close> is
  \<open>wordsAsBuffers.length\<close>.
\<close>

fun buffer_size :: "buffer list \<Rightarrow> nat \<Rightarrow> nat \<Rightarrow> nat \<Rightarrow> nat \<Rightarrow> nat" where
  "buffer_size [] i n separatorByteLength currentBufferSize = currentBufferSize"
| "buffer_size (wordAsBuffer # rest) i n separatorByteLength currentBufferSize =
     (let shouldAddSeparator = (int i < int n - 1)
      in buffer_size rest (Suc i) n separatorByteLength
           (currentBufferSize + length wordAsBuffer +
            (if shouldAddSeparator then separatorByteLength else 0)))"

text \<open>
  The second \<open>reduce\<close>: it writes each word, and the separator after every word but the
  last, into \<open>workingBuffer\<close> at \<open>offset\<close>.
\<close>

fun write_words ::
    "buffer list \<Rightarrow> nat \<Rightarrow> nat \<Rightarrow> buffer \<Rightarrow> nat \<Rightarrow> buffer \<times> nat \<Rightarrow> js_error + buffer \<times> nat" where
  "write_words [] i n separator separatorByteLength result = Inr result"
| "write_words (wordAsBuffer # rest) i n separator separatorByteLength (workingBuffer, offset) =
     (let shouldAddSeparator = (int i < int n - 1)
      in case buffer_set workingBuffer wordAsBuffer offset of
           Inl e \<Rightarrow> Inl e
         | Inr written \<Rightarrow>
             (case (if shouldAddSeparator
                    then buffer_write written separator (offset + length wordAsBuffer)
                           separatorByteLength
                    else Inr written) of
                Inl e \<Rightarrow> Inl e
              | Inr separated \<Rightarrow>
                  write_words rest (Suc i) n separator separatorByteLength
                    (separated,
                     offset + length wordAsBuffer +
                     (if shouldAddSeparator then separatorByteLength else 0))))"

definition entropyToMnemonic ::
    "platform \<Rightarrow> state \<Rightarrow> entropy_arg \<Rightarrow> jsstring list option \<Rightarrow> buffer result" where
  "entropyToMnemonic P s entropy wordlist =
     (let entropy = (case entropy of EBuf buf \<Rightarrow> buf | EStr hex \<Rightarrow> hex_bytes P hex)
      in case (case wordlist of Some w \<Rightarrow> Some w | None \<Rightarrow> DEFAULT_WORDLIST s) of
           None \<Rightarrow> Some (Inl (Error WORDLIST_REQUIRED))
         | Some wordlist \<Rightarrow>
             (if length entropy < 16 then Some (Inl (TypeError INVALID_ENTROPY))
              else if length entropy > 32 then Some (Inl (TypeError INVALID_ENTROPY))
              else if length entropy mod 4 \<noteq> 0 then Some (Inl (TypeError INVALID_ENTROPY))
              else
                (case bytesToBinary (map unat entropy) of
                   None \<Rightarrow> None
                 | Some entropyBits \<Rightarrow>
                     (case deriveChecksumBits P entropy of
                        None \<Rightarrow> None
                      | Some checksumBits \<Rightarrow>
                          (let bits = entropyBits @ checksumBits
                           in case match_chunks 11 bits of
                                None \<Rightarrow> Some (Inl (TypeError NULL_MATCH))
                              | Some pieces \<Rightarrow>
                                  (let wordsAsBuffers =
                                         map (\<lambda>binary.
                                                utf8_bytes P
                                                  (normalize_str P
                                                     (element_at wordlist (binaryToByte binary))))
                                           pieces;
                                       separator =
                                         (if element_at wordlist (Some 0) = Some JAPANESE_FIRST_WORD
                                          then [0x3000] else ascii '' '');
                                       separatorByteLength = length (utf8_bytes P separator);
                                       bufferSize =
                                         buffer_size wordsAsBuffers 0 (length wordsAsBuffers)
                                           separatorByteLength 0
                                   in case write_words wordsAsBuffers 0 (length wordsAsBuffers)
                                             (utf8_bytes P separator) separatorByteLength
                                             (replicate bufferSize 0, 0) of
                                        Inl e \<Rightarrow> Some (Inl e)
                                      | Inr (workingBuffer, offset) \<Rightarrow>
                                          Some (Inr workingBuffer)))))))"

subsection \<open>Numbers\<close>

text \<open>
  A JavaScript number: a finite value, \<open>NaN\<close> or an infinity. Every finite double is a
  rational number; \<open>0\<close> and \<open>-0\<close>, which no operation used here tells apart, are both
  \<open>Num 0\<close>.
\<close>

datatype js_number = Num rat | NaN | PosInfinity | NegInfinity

text \<open>The truthiness of a number: \<open>0\<close>, \<open>-0\<close> and \<open>NaN\<close> are falsy.\<close>

definition truthy :: "js_number \<Rightarrow> bool" where
  "truthy x = (case x of Num q \<Rightarrow> q \<noteq> 0 | NaN \<Rightarrow> False | PosInfinity \<Rightarrow> True | NegInfinity \<Rightarrow> True)"

text \<open>Rounding towards zero.\<close>

definition trunc :: "rat \<Rightarrow> int" where
  "trunc q = (if q < 0 then \<lceil>q\<rceil> else \<lfloor>q\<rfloor>)"

text \<open>
  \<open>x % d\<close> for a finite \<open>d\<close> other than 0: the remainder of the division rounded towards
  zero, which has the sign of \<open>x\<close> and is exact on doubles; \<open>NaN\<close> when \<open>x\<close> is \<open>NaN\<close> or
  infinite.
\<close>

definition js_rem :: "js_number \<Rightarrow> rat \<Rightarrow> js_number" where
  "js_rem x d =
     (case x of
        Num q \<Rightarrow> Num (q - d * of_int (trunc (q / d)))
      | NaN \<Rightarrow> NaN
      | PosInfinity \<Rightarrow> NaN
      | NegInfinity \<Rightarrow> NaN)"

text \<open>
  \<open>x / d\<close> for a finite \<open>d\<close> other than 0. The quotient of a double by 8 is exact unless
  it underflows, which it does not for a multiple of 32.
\<close>

definition js_quot :: "js_number \<Rightarrow> rat \<Rightarrow> js_number" where
  "js_quot x d =
     (case x of
        Num q \<Rightarrow> Num (q / d)
      | NaN \<Rightarrow> NaN
      | PosInfinity \<Rightarrow> (if 0 < d then PosInfinity else NegInfinity)
      | NegInfinity \<Rightarrow> (if 0 < d then NegInfinity else PosInfinity))"

text \<open>\<open>x === y\<close> on numbers: \<open>NaN\<close> equals nothing, itself included.\<close>

definition strict_equal :: "js_number \<Rightarrow> js_number \<Rightarrow> bool" where
  "strict_equal x y = (x \<noteq> NaN \<and> y \<noteq> NaN \<and> x = y)"

subsection \<open>\<open>generateMnemonic\<close> and \<open>validateMnemonic\<close>\<close>

text \<open>
  \<open>generateMnemonic(strength, rng, wordlist)\<close>. \<open>strength || 128\<close> replaces a falsy
  strength: \<open>undefined\<close>, \<open>0\<close> and \<open>NaN\<close>. A random source is a function of the requested
  size and of its own state \<open>g\<close>, which it returns changed; \<open>randomBytes\<close> is the default
  one.
\<close>

definition generateMnemonic ::
    "platform \<Rightarrow> state \<Rightarrow> (js_number \<Rightarrow> 'g \<Rightarrow> buffer \<times> 'g) \<Rightarrow> js_number option \<Rightarrow>
     (js_number \<Rightarrow> 'g \<Rightarrow> buffer \<times> 'g) option \<Rightarrow> jsstring list option \<Rightarrow> 'g \<Rightarrow> buffer result \<times> 'g" where
  "generateMnemonic P s randomBytes strength rng wordlist g =
     (let strength = (case strength of None \<Rightarrow> Num 128 | Some n \<Rightarrow> (if truthy n then n else Num 128))
      in if \<not> strict_equal (js_rem strength 32) (Num 0)
         then (Some (Inl (TypeError INVALID_ENTROPY)), g)
         else
           (let rng = (case rng of None \<Rightarrow> randomBytes | Some r \<Rightarrow> r);
                (bytes, g') = rng (js_quot strength 8) g
            in (entropyToMnemonic P s (EBuf bytes) wordlist, g')))"

text \<open>\<open>validateMnemonic\<close>: the \<open>try\<close> block around \<open>mnemonicToEntropy\<close>.\<close>

definition validateMnemonic :: "platform \<Rightarrow> state \<Rightarrow> jsstring \<Rightarrow> jsstring list option \<Rightarrow> bool option" where
  "validateMnemonic P s mnemonic wordlist =
     (case mnemonicToEntropy P s (MStr mnemonic) wordlist of
        None \<Rightarrow> None
      | Some (Inl e) \<Rightarrow> Some False
      | Some (Inr entropy) \<Rightarrow> Some True)"

section \<open>Wordlist registry\<close>

text \<open>
  \<open>setDefaultWordlist(language)\<close>; an array is truthy, also an empty one. The registry
  \<open>wordlists\<close> is the list of its own entries, in the order of \<open>Object.keys\<close>, and a
  language is looked up among them: what the object inherits from its prototype, such as
  \<open>constructor\<close>, is not a language of this model.
\<close>

definition setDefaultWordlist :: "state \<Rightarrow> string \<Rightarrow> js_error + state" where
  "setDefaultWordlist s language =
     (case map_of (wordlists s) language of
        Some result \<Rightarrow> Inr (s\<lparr>DEFAULT_WORDLIST := Some result\<rparr>)
      | None \<Rightarrow>
          Inl (Error (''Could not find wordlist for language '' @ [CHR 0x22] @ language @ [CHR 0x22])))"

text \<open>
  The callback of \<open>every\<close>: \<open>word === DEFAULT_WORDLIST[index]\<close>, false where the default
  has no word at the index.
\<close>

definition every_word_equal :: "jsstring list \<Rightarrow> jsstring list \<Rightarrow> bool" where
  "every_word_equal wordlist current =
     list_all (\<lambda>(index, word). index < length current \<and> word = current ! index)
       (enumerate 0 wordlist)"

text \<open>
  \<open>getDefaultWordlist()\<close>: the first key that passes the filter, \<open>undefined\<close> (here \<open>None\<close>)
  when none does.
\<close>

definition getDefaultWordlist :: "state \<Rightarrow> js_error + string option" where
  "getDefaultWordlist s =
     (case DEFAULT_WORDLIST s of
        None \<Rightarrow> Inl (Error ''No Default Wordlist set'')
      | Some current \<Rightarrow>
          (case filter
                  (\<lambda>lang.
                     if lang = ''JA'' \<or> lang = ''EN'' then False
                     else (case map_of (wordlists s) lang of
                             None \<Rightarrow> False
                           | Some wordlist \<Rightarrow> every_word_equal wordlist current))
                  (map fst (wordlists s)) of
             [] \<Rightarrow> Inr None
           | lang # others \<Rightarrow> Inr (Some lang)))"

section \<open>Vocabulary of the statements\<close>

text \<open>The value of a bit string, and the \<open>len\<close>-digit bit string of a number.\<close>

definition bin_val :: "string \<Rightarrow> nat" where
  "bin_val s = foldl (\<lambda>acc c. 2 * acc + (if c = CHR ''1'' then 1 else 0)) 0 s"

definition bits_of :: "nat \<Rightarrow> nat \<Rightarrow> string" where
  "bits_of len n = replicate (len - length (toString2 n)) CHR ''0'' @ toString2 n"

text \<open>Words joined with one separator between neighbours.\<close>

fun join_with :: "'a list \<Rightarrow> 'a list list \<Rightarrow> 'a list" where
  "join_with sep [] = []"
| "join_with sep [w] = w"
| "join_with sep (w # v # ws) = w @ sep @ join_with sep (v # ws)"

text \<open>
  The spec's description of the encoder: the bits of the entropy, followed by the first
  \<open>ENT / 32\<close> bits of its hash, cut into pieces of eleven bits; each piece is the index
  of a word, and the word is written in UTF-8 after normalisation.
\<close>

definition entropy_bits :: "buffer \<Rightarrow> string" where
  "entropy_bits buf = concat (map (\<lambda>b. bits_of 8 (unat b)) buf)"

definition checksum_bits :: "platform \<Rightarrow> buffer \<Rightarrow> string" where
  "checksum_bits P entropy = take (length entropy * 8 div 32) (entropy_bits (sha256 P entropy))"

definition mnemonic_pieces :: "platform \<Rightarrow> buffer \<Rightarrow> string list" where
  "mnemonic_pieces P entropy = chunks 11 (entropy_bits entropy @ checksum_bits P entropy)"

definition word_bytes :: "platform \<Rightarrow> jsstring list \<Rightarrow> string \<Rightarrow> buffer" where
  "word_bytes P wordlist piece =
     utf8_bytes P (normalize_str P (element_at wordlist (binaryToByte piece)))"

definition mnemonic_words :: "platform \<Rightarrow> jsstring list \<Rightarrow> buffer \<Rightarrow> buffer list" where
  "mnemonic_words P wordlist entropy = map (word_bytes P wordlist) (mnemonic_pieces P entropy)"

text \<open>The separator the encoder chooses for a wordlist.\<close>

definition separator_of :: "jsstring list \<Rightarrow> jsstring" where
  "separator_of wordlist =
     (if element_at wordlist (Some 0) = Some JAPANESE_FIRST_WORD then [0x3000] else ascii '' '')"

text \<open>The first word of the Japanese wordlist as the spec spells it (its fourth letter differs).\<close>

definition SPEC_FIRST_WORD :: jsstring where
  "SPEC_FIRST_WORD = [0x3042, 0x3044, 0x3053, 0x3046, 0x3057, 0x3093]"

definition valid_entropy_length :: "nat \<Rightarrow> bool" where
  "valid_entropy_length n = (16 \<le> n \<and> n \<le> 32 \<and> n mod 4 = 0)"

text \<open>
  What the decoder needs of a wordlist to read its words back from the bytes the encoder
  writes: 2048 words, no word twice, every word unchanged by normalisation, UTF-8 encoding
  and decoding, and no byte \<open>0x20\<close> inside a written word.
\<close>

definition readable_wordlist :: "platform \<Rightarrow> jsstring list \<Rightarrow> bool" where
  "readable_wordlist P wordlist =
     (length wordlist = 2048 \<and> distinct wordlist \<and>
      list_all (\<lambda>w. utf8_string P (utf8_bytes P (normalize_str P (Some w))) = w \<and>
                    0x20 \<notin> set (utf8_bytes P (normalize_str P (Some w)))) wordlist)"

text \<open>The wordlist a call works with: the argument, else the default.\<close>

definition resolved_wordlist :: "state \<Rightarrow> jsstring list option \<Rightarrow> jsstring list option" where
  "resolved_wordlist s wordlist = (case wordlist of Some w \<Rightarrow> Some w | None \<Rightarrow> DEFAULT_WORDLIST s)"

text \<open>Whether a call threw an error with the message \<open>Invalid entropy\<close>.\<close>

definition raises_invalid_entropy :: "'a result \<Rightarrow> bool" where
  "raises_invalid_entropy r =
     (r = Some (Inl (Error INVALID_ENTROPY)) \<or> r = Some (Inl (TypeError INVALID_ENTROPY)) \<or>
      r = Some (Inl (RangeError INVALID_ENTROPY)))"

text \<open>
  What \<open>getDefaultWordlist\<close> looks for: a language other than \<open>JA\<close> and \<open>EN\<close> whose
  wordlist is the beginning of the current default, word for word.
\<close>

definition begins_default :: "state \<Rightarrow> string \<Rightarrow> bool" where
  "begins_default s lang =
     (lang \<noteq> ''JA'' \<and> lang \<noteq> ''EN'' \<and>
      (case (map_of (wordlists s) lang, DEFAULT_WORDLIST s) of
         (Some wordlist, Some current) \<Rightarrow>
           length wordlist \<le> length current \<and> take (length wordlist) current = wordlist
       | other \<Rightarrow> False))"

text \<open>
  The binary expansion of a hash: bit \<open>i\<close> is bit \<open>7 - i mod 8\<close> of byte \<open>i div 8\<close>
  (the most significant bit of a byte comes first).
\<close>

definition hash_bit :: "buffer \<Rightarrow> nat \<Rightarrow> char" where
  "hash_bit hash i = (if bit (hash ! (i div 8)) (7 - i mod 8) then CHR ''1'' else CHR ''0'')"

definition first_bits :: "buffer \<Rightarrow> nat \<Rightarrow> string" where
  "first_bits hash n = map (hash_bit hash) [0..<n]"

text \<open>The random source a call of \<open>generateMnemonic\<close> uses: the argument, else the default.\<close>

definition chosen_rng ::
    "(js_number \<Rightarrow> 'g \<Rightarrow> buffer \<times> 'g) \<Rightarrow> (js_number \<Rightarrow> 'g \<Rightarrow> buffer \<times> 'g) option \<Rightarrow>
     js_number \<Rightarrow> 'g \<Rightarrow> buffer \<times> 'g" where
  "chosen_rng randomBytes rng = (case rng of None \<Rightarrow> randomBytes | Some r \<Rightarrow> r)"

text \<open>A number that is an integer multiple of 32.\<close>

definition multiple_of_32 :: "js_number \<Rightarrow> bool" where
  "multiple_of_32 x =
     (case x of
        Num q \<Rightarrow> of_int \<lfloor>q / 32\<rfloor> = q / 32
      | NaN \<Rightarrow> False
      | PosInfinity \<Rightarrow> False
      | NegInfinity \<Rightarrow> False)"

section \<open>A platform to evaluate on\<close>

text \<open>
  The statements below hold for every platform. Their instances are evaluated on this
  one. Its hash is SHA-256 as FIPS 180-4 defines it, on 32-bit values kept as natural
  numbers with the wrap-around written out; the round constants and the initial hash
  value are written in decimal.
\<close>

type_synonym w32 = nat

definition add32 :: "w32 \<Rightarrow> w32 \<Rightarrow> w32" where
  "add32 x y = (x + y) mod 4294967296"

definition rotr :: "nat \<Rightarrow> w32 \<Rightarrow> w32" where
  "rotr n x = x div 2 ^ n + (x mod 2 ^ n) * 2 ^ (32 - n)"

definition shr :: "nat \<Rightarrow> w32 \<Rightarrow> w32" where
  "shr n x = x div 2 ^ n"

definition not32 :: "w32 \<Rightarrow> w32" where
  "not32 x = 4294967295 - x"

definition Ch :: "w32 \<Rightarrow> w32 \<Rightarrow> w32 \<Rightarrow> w32" where
  "Ch x y z = (x AND y) XOR (not32 x AND z)"

definition Maj :: "w32 \<Rightarrow> w32 \<Rightarrow> w32 \<Rightarrow> w32" where
  "Maj x y z = (x AND y) XOR (x AND z) XOR (y AND z)"

definition Sigma0 :: "w32 \<Rightarrow> w32" where
  "Sigma0 x = rotr 2 x XOR rotr 13 x XOR rotr 22 x"

definition Sigma1 :: "w32 \<Rightarrow> w32" where
  "Sigma1 x = rotr 6 x XOR rotr 11 x XOR rotr 25 x"

definition sigma0 :: "w32 \<Rightarrow> w32" where
  "sigma0 x = rotr 7 x XOR rotr 18 x XOR shr 3 x"

definition sigma1 :: "w32 \<Rightarrow> w32" where
  "sigma1 x = rotr 17 x XOR rotr 19 x XOR shr 10 x"

definition K256 :: "w32 list" where
  "K256 =
    [1116352408, 1899447441, 3049323471, 3921009573, 961987163, 1508970993,
     2453635748, 2870763221, 3624381080, 310598401, 607225278, 1426881987,
     1925078388, 2162078206, 2614888103, 3248222580, 3835390401, 4022224774,
     264347078, 604807628, 770255983, 1249150122, 1555081692, 1996064986,
     2554220882, 2821834349, 2952996808, 3210313671, 3336571891, 3584528711,
     113926993, 338241895, 666307205, 773529912, 1294757372, 1396182291,
     1695183700, 1986661051, 2177026350, 2456956037, 2730485921, 2820302411,
     3259730800, 3345764771, 3516065817, 3600352804, 4094571909, 275423344,
     430227734, 506948616, 659060556, 883997877, 958139571, 1322822218,
     1537002063, 1747873779, 1955562222, 2024104815, 2227730452, 2361852424,
     2428436474, 2756734187, 3204031479, 3329325298]"

type_synonym sha_state = "w32 \<times> w32 \<times> w32 \<times> w32 \<times> w32 \<times> w32 \<times> w32 \<times> w32"

definition H256 :: sha_state where
  "H256 = (1779033703, 3144134277, 1013904242, 2773480762,
           1359893119, 2600822924, 528734635, 1541459225)"

text \<open>The message schedule, newest word first: \<open>n\<close> more words after the ones given.\<close>

fun schedule :: "nat \<Rightarrow> w32 list \<Rightarrow> w32 list" where
  "schedule 0 ws = ws"
| "schedule (Suc n) ws =
     schedule n
       (add32 (add32 (sigma1 (ws ! 1)) (ws ! 6)) (add32 (sigma0 (ws ! 14)) (ws ! 15)) # ws)"

fun sha_round :: "sha_state \<Rightarrow> w32 \<times> w32 \<Rightarrow> sha_state" where
  "sha_round (a, b, c, d, e, f, g, h) (k, w) =
     (add32 (add32 (add32 (add32 h (Sigma1 e)) (add32 (Ch e f g) k)) w)
        (add32 (Sigma0 a) (Maj a b c)),
      a, b, c,
      add32 d (add32 (add32 (add32 h (Sigma1 e)) (add32 (Ch e f g) k)) w),
      e, f, g)"

fun add_state :: "sha_state \<Rightarrow> sha_state \<Rightarrow> sha_state" where
  "add_state (a, b, c, d, e, f, g, h) (a', b', c', d', e', f', g', h') =
     (add32 a a', add32 b b', add32 c c', add32 d d',
      add32 e e', add32 f f', add32 g g', add32 h h')"

fun be_words :: "nat list \<Rightarrow> w32 list" where
  "be_words (b0 # b1 # b2 # b3 # rest) =
     (((b0 * 256 + b1) * 256 + b2) * 256 + b3) # be_words rest"
| "be_words rest = []"

definition compress :: "sha_state \<Rightarrow> nat list \<Rightarrow> sha_state" where
  "compress hs block =
     add_state hs (foldl sha_round hs (zip K256 (rev (schedule 48 (rev (be_words block))))))"

fun blocks :: "nat \<Rightarrow> nat list \<Rightarrow> nat list list" where
  "blocks 0 bytes = []"
| "blocks (Suc n) bytes = take 64 bytes # blocks n (drop 64 bytes)"

definition sha_pad :: "nat list \<Rightarrow> nat list" where
  "sha_pad m =
     m @ [0x80] @ replicate ((119 - length m mod 64) mod 64) 0 @
     map (\<lambda>i. (8 * length m) div 256 ^ i mod 256) [7, 6, 5, 4, 3, 2, 1, 0]"

definition be_bytes :: "w32 \<Rightarrow> nat list" where
  "be_bytes x = [x div 16777216 mod 256, x div 65536 mod 256, x div 256 mod 256, x mod 256]"

fun state_bytes :: "sha_state \<Rightarrow> nat list" where
  "state_bytes (a, b, c, d, e, f, g, h) =
     be_bytes a @ be_bytes b @ be_bytes c @ be_bytes d @
     be_bytes e @ be_bytes f @ be_bytes g @ be_bytes h"

definition sha256_digest :: "nat list \<Rightarrow> nat list" where
  "sha256_digest m =
     state_bytes (foldl compress H256 (blocks (length (sha_pad m) div 64) (sha_pad m)))"

text \<open>The UTF-8 encoding of a sequence of UTF-16 code units, as numbers.\<close>

fun utf8_units :: "nat list \<Rightarrow> nat list" where
  "utf8_units [] = []"
| "utf8_units [u] =
     (if u < 0x80 then [u]
      else if u < 0x800 then [0xC0 + u div 64, 0x80 + u mod 64]
      else if 0xD800 \<le> u \<and> u < 0xE000 then [0xEF, 0xBF, 0xBD]
      else [0xE0 + u div 4096, 0x80 + u div 64 mod 64, 0x80 + u mod 64])"
| "utf8_units (u # l # rest) =
     (if u < 0x80 then u # utf8_units (l # rest)
      else if u < 0x800 then (0xC0 + u div 64) # (0x80 + u mod 64) # utf8_units (l # rest)
      else if 0xD800 \<le> u \<and> u < 0xDC00 \<and> 0xDC00 \<le> l \<and> l < 0xE000 then
        [0xF0 + (0x10000 + (u - 0xD800) * 1024 + (l - 0xDC00)) div 262144,
         0x80 + (0x10000 + (u - 0xD800) * 1024 + (l - 0xDC00)) div 4096 mod 64,
         0x80 + (0x10000 + (u - 0xD800) * 1024 + (l - 0xDC00)) div 64 mod 64,
         0x80 + (0x10000 + (u - 0xD800) * 1024 + (l - 0xDC00)) mod 64] @ utf8_units rest
      else if 0xD800 \<le> u \<and> u < 0xE000 then 0xEF # 0xBF # 0xBD # utf8_units (l # rest)
      else (0xE0 + u div 4096) # (0x80 + u div 64 mod 64) # (0x80 + u mod 64) #
           utf8_units (l # rest))"

definition utf8_encode :: "jsstring \<Rightarrow> buffer" where
  "utf8_encode str = map of_nat (utf8_units (map unat str))"

definition continuation :: "nat \<Rightarrow> bool" where
  "continuation b = (0x80 \<le> b \<and> b < 0xC0)"

text \<open>
  The UTF-16 code units of a UTF-8 byte sequence; a byte that starts no well-formed
  sequence becomes U+FFFD.
\<close>

fun utf16_units :: "nat list \<Rightarrow> nat list" where
  "utf16_units [] = []"
| "utf16_units (b # bs) =
     (if b < 0x80 then b # utf16_units bs
      else if 0xC2 \<le> b \<and> b < 0xE0 \<and> 1 \<le> length bs \<and> continuation (bs ! 0)
        then ((b - 0xC0) * 64 + (bs ! 0 - 0x80)) # utf16_units (drop 1 bs)
      else if 0xE0 \<le> b \<and> b < 0xF0 \<and> 2 \<le> length bs \<and> continuation (bs ! 0) \<and>
              continuation (bs ! 1) \<and>
              0x800 \<le> (b - 0xE0) * 4096 + (bs ! 0 - 0x80) * 64 + (bs ! 1 - 0x80) \<and>
              \<not> (0xD800 \<le> (b - 0xE0) * 4096 + (bs ! 0 - 0x80) * 64 + (bs ! 1 - 0x80) \<and>
                 (b - 0xE0) * 4096 + (bs ! 0 - 0x80) * 64 + (bs ! 1 - 0x80) < 0xE000)
        then ((b - 0xE0) * 4096 + (bs ! 0 - 0x80) * 64 + (bs ! 1 - 0x80)) #
             utf16_units (drop 2 bs)
      else if 0xF0 \<le> b \<and> b < 0xF5 \<and> 3 \<le> length bs \<and> continuation (bs ! 0) \<and>
              continuation (bs ! 1) \<and> continuation (bs ! 2) \<and>
              0x10000 \<le> (b - 0xF0) * 262144 + (bs ! 0 - 0x80) * 4096 + (bs ! 1 - 0x80) * 64 +
                           (bs ! 2 - 0x80) \<and>
              (b - 0xF0) * 262144 + (bs ! 0 - 0x80) * 4096 + (bs ! 1 - 0x80) * 64 +
                (bs ! 2 - 0x80) < 0x110000
        then (0xD800 + ((b - 0xF0) * 262144 + (bs ! 0 - 0x80) * 4096 + (bs ! 1 - 0x80) * 64 +
                        (bs ! 2 - 0x80) - 0x10000) div 1024) #
             (0xDC00 + ((b - 0xF0) * 262144 + (bs ! 0 - 0x80) * 4096 + (bs ! 1 - 0x80) * 64 +
                        (bs ! 2 - 0x80) - 0x10000) mod 1024) #
             utf16_units (drop 3 bs)
      else 0xFFFD # utf16_units bs)"

definition utf8_decode :: "buffer \<Rightarrow> jsstring" where
  "utf8_decode buf = map of_nat (utf16_units (map unat buf))"

text \<open>
  NFKD on the code units that the instances below contain: ASCII and the hiragana of the
  two first words are their own decomposition, U+3000 decomposes to U+0020, and U+00E9
  (e with acute accent) to U+0065 U+0301. On other code units this function is not NFKD.
\<close>

definition nfkd_known :: "jsstring \<Rightarrow> jsstring" where
  "nfkd_known str =
     concat (map (\<lambda>u. if u = 0x3000 then [0x20] else if u = 0xE9 then [0x65, 0x301] else [u]) str)"

text \<open>Pairs of hexadecimal digits as bytes, up to the first that is none.\<close>

definition hex_value :: "nat \<Rightarrow> nat option" where
  "hex_value u =
     (if 0x30 \<le> u \<and> u \<le> 0x39 then Some (u - 0x30)
      else if 0x61 \<le> u \<and> u \<le> 0x66 then Some (u - 0x61 + 10)
      else if 0x41 \<le> u \<and> u \<le> 0x46 then Some (u - 0x41 + 10)
      else None)"

fun hex_pairs :: "nat list \<Rightarrow> nat list" where
  "hex_pairs (a # b # rest) =
     (case (hex_value a, hex_value b) of
        (Some x, Some y) \<Rightarrow> (16 * x + y) # hex_pairs rest
      | other \<Rightarrow> [])"
| "hex_pairs rest = []"

definition hex_decode :: "jsstring \<Rightarrow> buffer" where
  "hex_decode str = map of_nat (hex_pairs (map unat str))"

text \<open>
  PBKDF2 is not computed here: this stands in its place, and no statement below depends
  on what it returns.
\<close>

definition pbkdf2_placeholder :: "buffer \<Rightarrow> buffer \<Rightarrow> nat \<Rightarrow> nat \<Rightarrow> string \<Rightarrow> buffer" where
  "pbkdf2_placeholder password saltBuffer iterations keylen digest = replicate keylen 0"

definition node :: platform where
  "node = \<lparr>nfkd = nfkd_known,
           utf8_bytes = utf8_encode,
           utf8_string = utf8_decode,
           hex_bytes = hex_decode,
           sha256 = (\<lambda>buf. map of_nat (sha256_digest (map unat buf))),
           pbkdf2Sync = pbkdf2_placeholder\<rparr>"

text \<open>A state with no default wordlist and an empty registry.\<close>

definition no_default :: state where
  "no_default = \<lparr>wordlists = [], DEFAULT_WORDLIST = None\<rparr>"

text \<open>
  The wordlist files are not among the sources. These lists stand for them: 2048 words
  \<open>a\<close>, \<open>aa\<close>, \<open>aaa\<close>, ..., and the same list with another first word.
\<close>

definition unary_word :: "nat \<Rightarrow> jsstring" where
  "unary_word i = replicate (Suc i) 0x61"

definition more_words :: "jsstring list" where
  "more_words = map unary_word [1..<2048]"

definition test_wordlist :: "jsstring list" where
  "test_wordlist = unary_word 0 # more_words"

definition japanese_like_wordlist :: "jsstring list" where
  "japanese_like_wordlist = JAPANESE_FIRST_WORD # more_words"

definition spec_marked_wordlist :: "jsstring list" where
  "spec_marked_wordlist = SPEC_FIRST_WORD # more_words"

definition spaced_wordlist :: "jsstring list" where
  "spaced_wordlist = ascii ''a a'' # more_words"

text \<open>
  A random source that returns zero bytes, as many as asked for, and counts its calls; and
  one that returns no byte at all.
\<close>

definition zero_rng :: "js_number \<Rightarrow> nat \<Rightarrow> buffer \<times> nat" where
  "zero_rng n calls =
     (case n of
        Num q \<Rightarrow> (replicate (nat \<lfloor>q\<rfloor>) 0, Suc calls)
      | NaN \<Rightarrow> ([], Suc calls)
      | PosInfinity \<Rightarrow> ([], Suc calls)
      | NegInfinity \<Rightarrow> ([], Suc calls))"

definition empty_rng :: "js_number \<Rightarrow> nat \<Rightarrow> buffer \<times> nat" where
  "empty_rng n calls = ([], Suc calls)"

text \<open>Registries to evaluate on: an alias of a language, a shorter list, distinct lists.\<close>

definition es_words :: "jsstring list" where
  "es_words = [ascii ''abaco'', ascii ''abdomen'']"

definition alias_registry :: state where
  "alias_registry =
     \<lparr>wordlists = [(''spanish'', es_words), (''ES'', es_words)], DEFAULT_WORDLIST = None\<rparr>"

definition short_registry :: state where
  "short_registry =
     \<lparr>wordlists = [(''XX'', [ascii ''abaco'']), (''ES'', es_words)], DEFAULT_WORDLIST = None\<rparr>"

definition plain_registry :: state where
  "plain_registry =
     \<lparr>wordlists =
        [(''EN'', [ascii ''abandon'', ascii ''ability'']),
         (''JA'', [JAPANESE_FIRST_WORD]),
         (''FR'', [ascii ''abaisser'', ascii ''abandon'']),
         (''ES'', es_words)],
      DEFAULT_WORDLIST = Some [ascii ''abandon'', ascii ''ability'']\<rparr>"

text \<open>
  The twelve words of the mnemonic of 16 zero bytes for \<open>japanese_like_wordlist\<close>, as a
  string with U+3000 between the words.
\<close>

definition japanese_like_sentence :: jsstring where
  "japanese_like_sentence =
     concat (replicate 11 (JAPANESE_FIRST_WORD @ [0x3000])) @ [0x61, 0x61, 0x61, 0x61]"

text \<open>
  Two more lists of 2048 words: one word 2048 times, and a list whose first word is the
  precomposed letter U+00E9.
\<close>

definition repeated_wordlist :: "jsstring list" where
  "repeated_wordlist = replicate 2048 (unary_word 0)"

definition precomposed_wordlist :: "jsstring list" where
  "precomposed_wordlist = [0xE9] # more_words"


section \<open>Bit codec: properties\<close>

lemma lpad_char_aux:
  "len - length str = k \<Longrightarrow> lpad str [c] len = Some (replicate (len - length str) c @ str)"
proof (induction k arbitrary: str)
  case 0
  then show ?case by (subst lpad.simps) simp
next
  case (Suc k)
  then have lt: "length str < len" by simp
  have "len - length ([c] @ str) = k" using Suc.prems by simp
  then have "lpad ([c] @ str) [c] len = Some (replicate (len - length ([c] @ str)) c @ [c] @ str)"
    by (rule Suc.IH)
  moreover have "replicate (len - length ([c] @ str)) c @ [c] @ str
      = replicate (len - length str) c @ str"
  proof -
    have "len - length str = Suc (len - length ([c] @ str))" using lt by simp
    then show ?thesis by (simp add: replicate_app_Cons_same)
  qed
  ultimately show ?case using lt by (subst lpad.simps) simp
qed

lemma lpad_char: "lpad str [c] len = Some (replicate (len - length str) c @ str)"
  by (rule lpad_char_aux) (rule refl)

lemma bin_val_Nil [simp]: "bin_val [] = 0"
  by (simp add: bin_val_def)

lemma bin_val_snoc [simp]: "bin_val (s @ [c]) = 2 * bin_val s + (if c = CHR ''1'' then 1 else 0)"
  by (simp add: bin_val_def)

lemma bin_val_zeros [simp]: "bin_val (replicate k CHR ''0'' @ s) = bin_val s"
proof (induction s rule: rev_induct)
  case Nil
  show ?case
  proof (induction k)
    case 0
    show ?case by simp
  next
    case (Suc k)
    have "replicate (Suc k) CHR ''0'' = replicate k CHR ''0'' @ [CHR ''0'']"
      by (simp add: replicate_append_same)
    then have "bin_val (replicate (Suc k) CHR ''0'') = 2 * bin_val (replicate k CHR ''0'')"
      by (simp only: bin_val_snoc) simp
    with Suc show ?case by simp
  qed
next
  case (snoc c s)
  have "bin_val ((replicate k CHR ''0'' @ s) @ [c]) = 2 * bin_val (replicate k CHR ''0'' @ s) + (if c = CHR ''1'' then 1 else 0)"
    by (rule bin_val_snoc)
  then show ?case using snoc by simp
qed

lemma toString2_bits: "list_all is_bit (toString2 n)"
proof (induction n rule: toString2.induct)
  case (1 n)
  show ?case
  proof (cases "n < 2")
    case True
    then show ?thesis by (subst toString2.simps) (simp add: is_bit_def)
  next
    case False
    with 1 have "list_all is_bit (toString2 (n div 2))" by simp
    with False show ?thesis by (subst toString2.simps) (simp add: is_bit_def)
  qed
qed

lemma toString2_nonempty [simp]: "toString2 n \<noteq> []"
  by (subst toString2.simps) simp

lemma bin_val_toString2 [simp]: "bin_val (toString2 n) = n"
proof (induction n rule: toString2.induct)
  case (1 n)
  show ?case
  proof (cases "n < 2")
    case True
    then show ?thesis by (subst toString2.simps) (auto simp: bin_val_def)
  next
    case False
    with 1 have ih: "bin_val (toString2 (n div 2)) = n div 2" by simp
    have "2 * (n div 2) + (if n mod 2 = 0 then 0 else 1) = n" by presburger
    with False ih show ?thesis by (subst toString2.simps) (simp split: if_splits)
  qed
qed

lemma length_toString2: "n < 2 ^ k \<Longrightarrow> 0 < k \<Longrightarrow> length (toString2 n) \<le> k"
proof (induction n arbitrary: k rule: toString2.induct)
  case (1 n)
  show ?case
  proof (cases "n < 2")
    case True
    then show ?thesis using "1.prems" by (subst toString2.simps) simp
  next
    case False
    then obtain j where k: "k = Suc j" and j: "0 < j" using "1.prems"
      by (cases k; cases "k - 1") auto
    have "n div 2 < 2 ^ j" using "1.prems" k by auto
    with 1 False j have "length (toString2 (n div 2)) \<le> j" by simp
    with False k show ?thesis by (subst toString2.simps) simp
  qed
qed

lemma bits_of_length: "n < 2 ^ k \<Longrightarrow> 0 < k \<Longrightarrow> length (bits_of k n) = k"
proof -
  assume "n < 2 ^ k" "0 < k"
  then have "length (toString2 n) \<le> k" by (rule length_toString2)
  then show ?thesis by (simp add: bits_of_def)
qed

lemma bits_of_bits: "list_all is_bit (bits_of k n)"
proof -
  have "list_all is_bit (replicate (k - length (toString2 n)) CHR ''0'')"
    by (simp add: list_all_iff is_bit_def)
  then show ?thesis using toString2_bits [of n] by (simp add: bits_of_def)
qed

lemma bin_val_bits_of [simp]: "bin_val (bits_of k n) = n"
  by (simp add: bits_of_def)

lemma lpad_zero: "lpad (toString2 n) ''0'' len = Some (bits_of len n)"
  by (simp add: lpad_char bits_of_def)

lemma bit_string_unique:
  "list_all is_bit s \<Longrightarrow> list_all is_bit t \<Longrightarrow> length s = length t \<Longrightarrow> bin_val s = bin_val t \<Longrightarrow> s = t"
proof (induction s arbitrary: t rule: rev_induct)
  case Nil
  then show ?case by simp
next
  case (snoc c s)
  then obtain d u where t: "t = u @ [d]" by (cases t rule: rev_cases) auto
  from snoc.prems t have bits: "is_bit c" "is_bit d" "list_all is_bit s" "list_all is_bit u"
    and len: "length s = length u" by simp_all
  from snoc.prems(4) t
  have eq: "2 * bin_val s + (if c = CHR ''1'' then 1 else 0) = 2 * bin_val u + (if d = CHR ''1'' then 1 else (0::nat))"
    by simp
  define x :: nat where "x = (if c = CHR ''1'' then 1 else 0)"
  define y :: nat where "y = (if d = CHR ''1'' then 1 else 0)"
  have xy: "2 * bin_val s + x = 2 * bin_val u + y" "x \<le> 1" "y \<le> 1"
    using eq by (simp_all add: x_def y_def)
  then have "x = y" by arith
  then have cd: "c = d" using bits(1,2) by (auto simp: x_def y_def is_bit_def split: if_splits)
  from xy \<open>x = y\<close> have "bin_val s = bin_val u" by simp
  with snoc.IH bits len have "s = u" by blast
  with cd t show ?case by simp
qed

lemma bits_of_bin_val:
  "list_all is_bit s \<Longrightarrow> s \<noteq> [] \<Longrightarrow> bits_of (length s) (bin_val s) = s"
proof -
  assume b: "list_all is_bit s" and ne: "s \<noteq> []"
  have bound: "bin_val s < 2 ^ length s" using b
  proof (induction s rule: rev_induct)
    case Nil
    then show ?case by simp
  next
    case (snoc c s)
    then have "bin_val s < 2 ^ length s" by simp
    then show ?case by simp
  qed
  have "length (bits_of (length s) (bin_val s)) = length s"
    using bound ne by (intro bits_of_length) simp_all
  then show ?thesis
    using b by (intro bit_string_unique) (simp_all add: bits_of_bits)
qed

lemma binaryToByte_bits:
  "list_all is_bit s \<Longrightarrow> s \<noteq> [] \<Longrightarrow> binaryToByte s = Some (bin_val s)"
proof -
  assume "list_all is_bit s" "s \<noteq> []"
  then have tw: "takeWhile is_bit s = s" by (simp add: list_all_iff)
  show ?thesis unfolding binaryToByte_def Let_def tw bin_val_def using \<open>s \<noteq> []\<close> by simp
qed

lemma those_map_Some: "those (map (\<lambda>x. Some (f x)) xs) = Some (map f xs)"
  by (induction xs) simp_all

lemma bytesToBinary_eq: "bytesToBinary bytes = Some (concat (map (bits_of 8) bytes))"
  by (simp add: bytesToBinary_def lpad_zero those_map_Some)

lemma chunks_Nil [simp]: "chunks n [] = []"
  by (subst chunks.simps) simp

lemma chunks_step: "0 < n \<Longrightarrow> xs \<noteq> [] \<Longrightarrow> chunks n xs = take n xs # chunks n (drop n xs)"
  by (subst chunks.simps) simp

lemma chunks_concat:
  "0 < n \<Longrightarrow> list_all (\<lambda>xs. length xs = n) xss \<Longrightarrow> chunks n (concat xss) = xss"
proof (induction xss)
  case Nil
  then show ?case by simp
next
  case (Cons xs xss)
  then have len: "length xs = n" and ne: "xs \<noteq> []" by auto
  have "chunks n (xs @ concat xss) = take n (xs @ concat xss) # chunks n (drop n (xs @ concat xss))"
    using Cons.prems(1) ne by (intro chunks_step) simp_all
  with len Cons show ?case by simp
qed

lemma concat_chunks: "0 < n \<Longrightarrow> concat (chunks n xs) = xs"
proof (induction n xs rule: chunks.induct)
  case (1 n xs)
  show ?case
  proof (cases "xs = []")
    case True
    then show ?thesis by simp
  next
    case False
    with 1 have "concat (chunks n (drop n xs)) = drop n xs" by simp
    with False "1.prems" show ?thesis by (simp add: chunks_step)
  qed
qed

lemma chunks_lengths:
  "0 < n \<Longrightarrow> length xs = k * n \<Longrightarrow> list_all (\<lambda>c. length c = n) (chunks n xs) \<and> length (chunks n xs) = k"
proof (induction k arbitrary: xs)
  case 0
  then show ?case by simp
next
  case (Suc k)
  then have ne: "xs \<noteq> []" by auto
  have "length (drop n xs) = k * n" using Suc.prems by simp
  with Suc have "list_all (\<lambda>c. length c = n) (chunks n (drop n xs)) \<and> length (chunks n (drop n xs)) = k"
    by blast
  moreover have "length (take n xs) = n" using Suc.prems by simp
  ultimately show ?case using Suc.prems(1) ne by (simp add: chunks_step)
qed

lemma byte_bits_length: "length (bits_of 8 (unat (b :: byte))) = 8"
proof -
  have "unat b < 2 ^ 8" using unsigned_less [of b] by simp
  then show ?thesis by (intro bits_of_length) simp_all
qed

lemma chunks_all:
  "0 < n \<Longrightarrow> list_all Q xs \<Longrightarrow> list_all (list_all Q) (chunks n xs)"
proof (induction n xs rule: chunks.induct)
  case (1 n xs)
  show ?case
  proof (cases "xs = []")
    case True
    then show ?thesis by simp
  next
    case False
    have "list_all Q (drop n xs)" "list_all Q (take n xs)"
      using "1.prems"(2) by (auto simp: list_all_iff dest: in_set_dropD in_set_takeD)
    with 1 False show ?thesis by (simp add: chunks_step)
  qed
qed

lemma bin_val_bound: "list_all is_bit s \<Longrightarrow> bin_val s < 2 ^ length s"
proof (induction s rule: rev_induct)
  case Nil
  then show ?case by simp
next
  case (snoc c s)
  then have "bin_val s < 2 ^ length s" by simp
  then show ?case by simp
qed

lemma bits_of_Suc:
  "0 < k \<Longrightarrow> bits_of (Suc k) n = bits_of k (n div 2) @ [if n mod 2 = 0 then CHR ''0'' else CHR ''1'']"
proof (cases "n < 2")
  case True
  assume k: "0 < k"
  from True have d: "n div 2 = 0" by simp
  have z: "bits_of k 0 = replicate k CHR ''0''"
  proof -
    have "replicate (k - 1) CHR ''0'' @ [CHR ''0''] = replicate (Suc (k - 1)) CHR ''0''"
      by (simp only: replicate_append_same replicate_Suc)
    then show ?thesis using k by (simp add: bits_of_def toString2.simps [of 0])
  qed
  have t: "toString2 n = [if n mod 2 = 0 then CHR ''0'' else CHR ''1'']"
    using True by (subst toString2.simps) auto
  show ?thesis by (simp add: bits_of_def [of "Suc k"] t d z)
next
  case False
  then have t: "toString2 n = toString2 (n div 2) @ [if n mod 2 = 0 then CHR ''0'' else CHR ''1'']"
    by (subst toString2.simps) simp
  show ?thesis by (simp add: bits_of_def t)
qed

lemma bits_of_nth:
  "n < 2 ^ k \<Longrightarrow> j < k \<Longrightarrow>
   bits_of k n ! j = (if bit n (k - 1 - j) then CHR ''1'' else CHR ''0'')"
proof (induction k arbitrary: n j)
  case 0
  then show ?case by simp
next
  case (Suc k)
  show ?case
  proof (cases "k = 0")
    case True
    with Suc.prems have n: "n < 2" and j: "j = 0" by simp_all
    have "toString2 n = [if n = 0 then CHR ''0'' else CHR ''1'']"
      using n by (subst toString2.simps) simp
    moreover have "n = 0 \<or> n = 1" using n by auto
    then have "bit n 0 = (n \<noteq> 0)" by (auto simp: bit_0)
    ultimately show ?thesis using True j by (simp add: bits_of_def)
  next
    case False
    then have k: "0 < k" by simp
    have half: "n div 2 < 2 ^ k" using Suc.prems(1) by auto
    have len: "length (bits_of k (n div 2)) = k" using half k by (rule bits_of_length)
    show ?thesis
    proof (cases "j < k")
      case True
      have "bits_of (Suc k) n ! j = bits_of k (n div 2) ! j"
        using True len by (simp add: bits_of_Suc [OF k] nth_append)
      also have "\<dots> = (if bit (n div 2) (k - 1 - j) then CHR ''1'' else CHR ''0'')"
        using half True by (rule Suc.IH)
      also have "bit (n div 2) (k - 1 - j) = bit n (Suc (k - 1 - j))"
        by (simp add: bit_Suc)
      also have "Suc (k - 1 - j) = Suc k - 1 - j" using True by simp
      finally show ?thesis .
    next
      case False
      with Suc.prems(2) have j: "j = k" by simp
      have "bits_of (Suc k) n ! j = (if n mod 2 = 0 then CHR ''0'' else CHR ''1'')"
        using len by (simp add: bits_of_Suc [OF k] nth_append j)
      moreover have "bit n 0 = (n mod 2 \<noteq> 0)" by (simp add: bit_0 odd_iff_mod_2_eq_one)
      ultimately show ?thesis by (simp add: j)
    qed
  qed
qed

lemma byte_bits_nth:
  "j < 8 \<Longrightarrow> bits_of 8 (unat (b :: byte)) ! j = (if bit b (7 - j) then CHR ''1'' else CHR ''0'')"
proof -
  assume j: "j < 8"
  have "unat b < 2 ^ 8" using unsigned_less [of b] by simp
  then have "bits_of 8 (unat b) ! j = (if bit (unat b) (8 - 1 - j) then CHR ''1'' else CHR ''0'')"
    using j by (rule bits_of_nth)
  then show ?thesis by (simp add: bit_unsigned_iff)
qed

lemma concat_nth:
  "list_all (\<lambda>xs. length xs = n) xss \<Longrightarrow> i < n * length xss \<Longrightarrow>
   concat xss ! i = xss ! (i div n) ! (i mod n)"
proof (induction xss arbitrary: i)
  case Nil
  then show ?case by simp
next
  case (Cons xs xss)
  then have len: "length xs = n" and rest: "list_all (\<lambda>xs. length xs = n) xss" by simp_all
  show ?case
  proof (cases "i < n")
    case True
    then show ?thesis using len by (simp add: nth_append)
  next
    case False
    then have ge: "n \<le> i" by simp
    then have "i - n < n * length xss" using Cons.prems(2) by simp
    with rest have "concat xss ! (i - n) = xss ! ((i - n) div n) ! ((i - n) mod n)"
      by (rule Cons.IH)
    moreover have npos: "0 < n" using Cons.prems(2) by (cases n) auto
    have "i div n = Suc ((i - n) div n)" "i mod n = (i - n) mod n"
      using le_div_geq [OF npos ge] le_mod_geq [OF ge] by simp_all
    ultimately show ?thesis using False len by (simp add: nth_append)
  qed
qed

lemma length_chunks: "0 < n \<Longrightarrow> length (chunks n xs) = (length xs + (n - 1)) div n"
proof (induction n xs rule: chunks.induct)
  case (1 n xs)
  show ?case
  proof (cases "xs = []")
    case True
    then show ?thesis using "1.prems" by simp
  next
    case False
    with 1 have ih: "length (chunks n (drop n xs)) = (length xs - n + (n - 1)) div n" by simp
    have step: "length (chunks n xs) = Suc ((length xs - n + (n - 1)) div n)"
      using False "1.prems" ih by (simp add: chunks_step)
    show ?thesis
    proof (cases "n \<le> length xs")
      case True
      then have "length xs + (n - 1) = (length xs - n + (n - 1)) + n" by simp
      then have "(length xs + (n - 1)) div n = (length xs - n + (n - 1)) div n + 1"
        using "1.prems" by (simp only: div_add_self2) 
      with step show ?thesis by simp
    next
      case less: False
      from False have pos: "0 < length xs" by simp
      have "n \<le> length xs + (n - 1)" using pos by arith
      then have "(length xs + (n - 1)) div n = Suc ((length xs + (n - 1) - n) div n)"
        using "1.prems" by (simp only: le_div_geq)
      moreover have "length xs + (n - 1) - n < n" using less pos by simp
      moreover have "length xs - n + (n - 1) < n" using less "1.prems" by simp
      ultimately show ?thesis using step by simp
    qed
  qed
qed

section \<open>Splitting and joining: properties\<close>

lemma byte_not_0x3000: "unat (b :: byte) \<noteq> 0x3000"
proof -
  have "unat b < 2 ^ 8" using unsigned_less [of b] by simp
  then show ?thesis by simp
qed

lemma byte_is_space: "(unat (b :: byte) = 0x20) = (b = 0x20)"
  by (simp add: word_unat_eq_iff)

lemma split_words_step:
  "split_words (b # rest) ws cur =
     (if b = 0x20 then split_words rest (ws @ [cur]) [] else split_words rest ws (cur @ [b]))"
  by (simp add: byte_not_0x3000 byte_is_space)

lemma split_words_word:
  "0x20 \<notin> set w \<Longrightarrow> split_words (w @ rest) ws cur = split_words rest ws (cur @ w)"
proof (induction w arbitrary: cur)
  case Nil
  then show ?case by simp
next
  case (Cons b w)
  then have "b \<noteq> 0x20" "0x20 \<notin> set w" by auto
  with Cons.IH [of "cur @ [b]"] show ?case by (simp add: split_words_step del: split_words.simps)
qed

lemma split_words_join:
  "list_all (\<lambda>w. 0x20 \<notin> set w) (w # ws) \<Longrightarrow>
   split_words (join_with [0x20] (w # ws)) acc cur = acc @ (cur @ w) # ws"
proof (induction ws arbitrary: w acc cur)
  case Nil
  then have "split_words (w @ []) acc cur = split_words [] acc (cur @ w)"
    by (intro split_words_word) simp
  then show ?case by simp
next
  case (Cons v ws)
  then have w: "0x20 \<notin> set w" and rest: "list_all (\<lambda>w. 0x20 \<notin> set w) (v # ws)" by simp_all
  have "split_words (w @ [0x20] @ join_with [0x20] (v # ws)) acc cur
      = split_words ([0x20] @ join_with [0x20] (v # ws)) acc (cur @ w)"
    using w by (rule split_words_word)
  also have "\<dots> = split_words (join_with [0x20] (v # ws)) (acc @ [cur @ w]) []"
    by (simp add: split_words_step del: split_words.simps)
  also have "\<dots> = (acc @ [cur @ w]) @ ([] @ v) # ws"
    using rest by (rule Cons.IH)
  finally show ?case by simp
qed

lemma buffer_size_eq:
  "i + length ws = n \<Longrightarrow>
   buffer_size ws i n (length sep) acc = acc + length (join_with sep ws)"
proof (induction ws arbitrary: i acc)
  case Nil
  then show ?case by simp
next
  case (Cons w ws)
  show ?case
  proof (cases ws)
    case Nil
    with Cons.prems show ?thesis by simp
  next
    case (Cons v vs)
    have "Suc i + length ws = n" using Cons.prems by simp
    then have "buffer_size ws (Suc i) n (length sep) (acc + length w + length sep)
        = acc + length w + length sep + length (join_with sep ws)"
      by (rule Cons.IH)
    moreover have "int i < int n - 1" using Cons.prems Cons by simp
    ultimately show ?thesis using Cons by simp
  qed
qed

lemma write_words_eq:
  "i + length ws = n \<Longrightarrow> offset + length (join_with sep ws) \<le> length buf \<Longrightarrow>
   write_words ws i n sep (length sep) (buf, offset) =
     Inr (take offset buf @ join_with sep ws @ drop (offset + length (join_with sep ws)) buf,
          offset + length (join_with sep ws))"
proof (induction ws arbitrary: i buf offset)
  case Nil
  then show ?case by simp
next
  case (Cons w ws)
  show ?case
  proof (cases ws)
    case Nil
    with Cons.prems show ?thesis by (simp add: buffer_set_def)
  next
    case (Cons v vs)
    let ?j = "join_with sep ws"
    have fits: "offset + length w + length sep + length ?j \<le> length buf"
      using Cons.prems(2) Cons by simp
    have should: "int i < int n - 1" using Cons.prems(1) Cons by simp
    define b1 where "b1 = take offset buf @ w @ drop (offset + length w) buf"
    define b2 where "b2 = take (offset + length w) b1 @ sep @ drop (offset + length w + length sep) b1"
    have set1: "buffer_set buf w offset = Inr b1"
      using fits by (simp add: buffer_set_def b1_def)
    have len1: "length b1 = length buf" using fits by (simp add: b1_def)
    have wr: "buffer_write b1 sep (offset + length w) (length sep) = Inr b2"
      using fits len1 by (simp add: buffer_write_def b2_def)
    have len2: "length b2 = length buf" using fits len1 by (simp add: b2_def)
    have "Suc i + length ws = n" using Cons.prems(1) by simp
    moreover have "(offset + length w + length sep) + length ?j \<le> length b2"
      using fits len2 by simp
    ultimately have ih: "write_words ws (Suc i) n sep (length sep) (b2, offset + length w + length sep)
        = Inr (take (offset + length w + length sep) b2 @ ?j @
                 drop (offset + length w + length sep + length ?j) b2,
               offset + length w + length sep + length ?j)"
      by (rule Cons.IH)
    have t: "take (offset + length w + length sep) b2 = take offset buf @ w @ sep"
      using fits by (simp add: b2_def b1_def)
    have d: "drop (offset + length w + length sep + length ?j) b2
        = drop (offset + length w + length sep + length ?j) buf"
      using fits by (simp add: b2_def b1_def ac_simps)
    show ?thesis
      using set1 wr should ih t d Cons by (simp add: add.assoc)
  qed
qed

lemma write_words_fresh:
  "write_words ws 0 (length ws) sep (length sep)
     (replicate (buffer_size ws 0 (length ws) (length sep) 0) 0, 0) =
   Inr (join_with sep ws, length (join_with sep ws))"
proof -
  have size: "buffer_size ws 0 (length ws) (length sep) 0 = length (join_with sep ws)"
    using buffer_size_eq [of 0 ws "length ws" sep 0] by simp
  show ?thesis
    unfolding size
    using write_words_eq [of 0 ws "length ws" 0 sep "replicate (length (join_with sep ws)) 0"]
    by simp
qed

lemma split_words_no_space: "0x20 \<notin> set bytes \<Longrightarrow> split_words bytes [] [] = [bytes]"
  using split_words_word [of bytes "[]" "[]" "[]"] by simp

section \<open>Encoder and decoder: properties\<close>

lemma bytesToBinary_buffer: "bytesToBinary (map unat buf) = Some (entropy_bits buf)"
  by (simp add: bytesToBinary_eq entropy_bits_def comp_def)

lemma deriveChecksumBits_eq: "deriveChecksumBits P entropy = Some (checksum_bits P entropy)"
  by (simp add: deriveChecksumBits_def checksum_bits_def bytesToBinary_buffer)

lemma entropy_bits_length: "length (entropy_bits buf) = 8 * length buf"
  by (induction buf) (simp_all add: entropy_bits_def byte_bits_length)

lemma entropy_bits_bits: "list_all is_bit (entropy_bits buf)"
  by (induction buf) (simp_all add: entropy_bits_def bits_of_bits)

lemma entropy_bits_nonempty: "buf \<noteq> [] \<Longrightarrow> entropy_bits buf \<noteq> []"
  using entropy_bits_length [of buf] by (cases buf) auto

lemma entropyToMnemonic_eq:
  assumes "valid_entropy_length (length entropy)"
    and "(case wordlist of Some w \<Rightarrow> Some w | None \<Rightarrow> DEFAULT_WORDLIST s) = Some resolved"
  shows "entropyToMnemonic P s (EBuf entropy) wordlist =
    Some (Inr (join_with (utf8_bytes P (separator_of resolved)) (mnemonic_words P resolved entropy)))"
proof -
  from assms(1) have len: "\<not> length entropy < 16" "\<not> length entropy > 32" "length entropy mod 4 = 0"
    and ne: "entropy \<noteq> []"
    by (auto simp: valid_entropy_length_def)
  have bits_ne: "entropy_bits entropy @ checksum_bits P entropy \<noteq> []"
    using entropy_bits_nonempty [OF ne] by simp
  have m: "match_chunks 11 (entropy_bits entropy @ checksum_bits P entropy)
      = Some (mnemonic_pieces P entropy)"
    using bits_ne by (simp add: match_chunks_def mnemonic_pieces_def)
  have w: "map (\<lambda>binary. utf8_bytes P (normalize_str P (element_at resolved (binaryToByte binary))))
      (mnemonic_pieces P entropy) = mnemonic_words P resolved entropy"
    by (simp add: mnemonic_words_def word_bytes_def)
  show ?thesis
    unfolding entropyToMnemonic_def
    by (simp add: assms(2) len bytesToBinary_buffer deriveChecksumBits_eq m w Let_def
        write_words_fresh separator_of_def del: write_words.simps buffer_size.simps)
qed

lemma indexOf_nth: "distinct xs \<Longrightarrow> i < length xs \<Longrightarrow> indexOf xs (xs ! i) = Some i"
proof (induction xs arbitrary: i)
  case Nil
  then show ?case by simp
next
  case (Cons x xs)
  show ?case
  proof (cases i)
    case 0
    then show ?thesis by simp
  next
    case (Suc j)
    with Cons.prems have "j < length xs" "distinct xs" "x \<noteq> xs ! j" by auto
    with Cons.IH [of j] Suc show ?thesis by simp
  qed
qed

lemma map_result_map:
  "list_all (\<lambda>c. g (f c) = Some (Inr c)) cs \<Longrightarrow> map_result g (map f cs) = Some (Inr cs)"
  by (induction cs) simp_all

lemma checksum_bits_length:
  "length (sha256 P entropy) = 32 \<Longrightarrow> valid_entropy_length (length entropy) \<Longrightarrow>
   length (checksum_bits P entropy) = length entropy div 4"
  by (auto simp: checksum_bits_def entropy_bits_length valid_entropy_length_def min_def)

lemma mnemonic_bits_length:
  assumes "length (sha256 P entropy) = 32" "valid_entropy_length (length entropy)"
  shows "length (entropy_bits entropy @ checksum_bits P entropy) = (3 * (length entropy div 4)) * 11"
proof -
  from assms(2) have "length entropy mod 4 = 0" by (simp add: valid_entropy_length_def)
  then have "8 * length entropy + length entropy div 4 = (3 * (length entropy div 4)) * 11"
    by presburger
  then show ?thesis by (simp add: entropy_bits_length checksum_bits_length [OF assms])
qed

lemma mnemonic_pieces_props:
  assumes "length (sha256 P entropy) = 32" "valid_entropy_length (length entropy)"
  shows "list_all (\<lambda>c. length c = 11) (mnemonic_pieces P entropy)"
    and "length (mnemonic_pieces P entropy) = 3 * (length entropy div 4)"
    and "list_all (list_all is_bit) (mnemonic_pieces P entropy)"
    and "concat (mnemonic_pieces P entropy) = entropy_bits entropy @ checksum_bits P entropy"
proof -
  have "list_all (\<lambda>c. length c = 11) (mnemonic_pieces P entropy) \<and>
      length (mnemonic_pieces P entropy) = 3 * (length entropy div 4)"
    unfolding mnemonic_pieces_def
    by (rule chunks_lengths [OF _ mnemonic_bits_length [OF assms]]) simp
  then show "list_all (\<lambda>c. length c = 11) (mnemonic_pieces P entropy)"
    and "length (mnemonic_pieces P entropy) = 3 * (length entropy div 4)" by simp_all
  have "list_all is_bit (entropy_bits entropy @ checksum_bits P entropy)"
    using entropy_bits_bits [of entropy] entropy_bits_bits [of "sha256 P entropy"]
    by (auto simp: checksum_bits_def list_all_iff dest: in_set_takeD)
  then show "list_all (list_all is_bit) (mnemonic_pieces P entropy)"
    unfolding mnemonic_pieces_def by (intro chunks_all) simp_all
  show "concat (mnemonic_pieces P entropy) = entropy_bits entropy @ checksum_bits P entropy"
    unfolding mnemonic_pieces_def by (rule concat_chunks) simp
qed

lemma word_to_bits_word_bytes:
  assumes W: "readable_wordlist P wordlist"
    and c: "length c = 11" "list_all is_bit c"
  shows "word_to_bits P wordlist (word_bytes P wordlist c) = Some (Inr c)"
    and "0x20 \<notin> set (word_bytes P wordlist c)"
proof -
  have ne: "c \<noteq> []" using c(1) by auto
  have "bin_val c < 2 ^ 11" using bin_val_bound [OF c(2)] c(1) by simp
  then have i: "bin_val c < length wordlist" using W by (simp add: readable_wordlist_def)
  have el: "element_at wordlist (binaryToByte c) = Some (wordlist ! bin_val c)"
    using i by (simp add: binaryToByte_bits [OF c(2) ne] element_at_def)
  have mem: "wordlist ! bin_val c \<in> set wordlist" using i by simp
  with W have readback: "utf8_string P (utf8_bytes P (normalize_str P (Some (wordlist ! bin_val c)))) = wordlist ! bin_val c"
    and nosp: "0x20 \<notin> set (utf8_bytes P (normalize_str P (Some (wordlist ! bin_val c))))"
    by (auto simp: readable_wordlist_def list_all_iff)
  have idx: "indexOf wordlist (wordlist ! bin_val c) = Some (bin_val c)"
    using W i by (intro indexOf_nth) (simp_all add: readable_wordlist_def)
  have "bits_of 11 (bin_val c) = c" using bits_of_bin_val [OF c(2) ne] c(1) by simp
  then show "word_to_bits P wordlist (word_bytes P wordlist c) = Some (Inr c)"
    by (simp add: word_to_bits_def word_bytes_def el readback idx lpad_zero)
  show "0x20 \<notin> set (word_bytes P wordlist c)"
    using nosp by (simp add: word_bytes_def el)
qed

lemma buffer_from_numbers_bits:
  "buffer_from_numbers (map (binaryToByte \<circ> (\<lambda>b. bits_of 8 (unat b))) buf) = buf"
proof -
  have "binaryToByte (bits_of 8 (unat b)) = Some (unat b)" for b :: byte
  proof -
    have "bits_of 8 (unat b) \<noteq> []" using byte_bits_length [of b] by auto
    then show ?thesis using binaryToByte_bits [OF bits_of_bits, of 8 "unat b"] by simp
  qed
  then show ?thesis by (simp add: buffer_from_numbers_def comp_def)
qed

lemma mnemonicToEntropy_words:
  assumes H: "length (sha256 P entropy) = 32"
    and E: "valid_entropy_length (length entropy)"
    and W: "readable_wordlist P wordlist"
  shows "mnemonicToEntropy P s (MBuf (join_with [0x20] (mnemonic_words P wordlist entropy)))
           (Some wordlist) = Some (Inr (toHex entropy))"
proof -
  let ?pieces = "mnemonic_pieces P entropy"
  let ?words = "mnemonic_words P wordlist entropy"
  note props = mnemonic_pieces_props [OF H E]
  from E have len: "\<not> length entropy < 16" "\<not> length entropy > 32" "length entropy mod 4 = 0"
    and ne: "entropy \<noteq> []"
    by (auto simp: valid_entropy_length_def)
  have each: "list_all (\<lambda>c. word_to_bits P wordlist (word_bytes P wordlist c) = Some (Inr c)) ?pieces"
    unfolding list_all_iff
  proof
    fix c assume "c \<in> set ?pieces"
    then have "length c = 11" "list_all is_bit c" using props(1,3) by (simp_all add: list_all_iff)
    then show "word_to_bits P wordlist (word_bytes P wordlist c) = Some (Inr c)"
      by (rule word_to_bits_word_bytes(1) [OF W])
  qed
  have nosp: "list_all (\<lambda>w. 0x20 \<notin> set w) ?words"
    unfolding list_all_iff mnemonic_words_def
  proof
    fix w assume "w \<in> set (map (word_bytes P wordlist) ?pieces)"
    then obtain c where c: "c \<in> set ?pieces" and w: "w = word_bytes P wordlist c" by auto
    from c have "length c = 11" "list_all is_bit c" using props(1,3) by (simp_all add: list_all_iff)
    then show "0x20 \<notin> set w" unfolding w by (rule word_to_bits_word_bytes(2) [OF W])
  qed
  from len(3) obtain k where k: "length entropy = 4 * k" by (auto simp: mod_eq_0_iff_dvd)
  with len(1) have kpos: "0 < k" by simp
  have n: "length ?words = 3 * k"
    by (simp add: mnemonic_words_def props(2) k)
  then have "?words \<noteq> []" using kpos by auto
  then obtain w ws where ws: "?words = w # ws" by (cases ?words) auto
  have "split_words (join_with [0x20] (w # ws)) [] [] = [] @ ([] @ w) # ws"
    using nosp unfolding ws by (rule split_words_join)
  then have split: "split_words (join_with [0x20] ?words) [] [] = ?words"
    by (simp add: ws)
  have mr: "map_result (word_to_bits P wordlist) ?words = Some (Inr ?pieces)"
    unfolding mnemonic_words_def using each by (rule map_result_map)
  have total: "length (concat ?pieces) = 33 * k"
    unfolding props(4) using mnemonic_bits_length [OF H E] by (simp add: k)
  have divider: "(length (concat ?pieces) div 33) * 32 = length (entropy_bits entropy)"
    unfolding total by (simp add: entropy_bits_length k)
  have tk: "take (length (entropy_bits entropy)) (concat ?pieces) = entropy_bits entropy"
    and dr: "drop (length (entropy_bits entropy)) (concat ?pieces) = checksum_bits P entropy"
    unfolding props(4) by simp_all
  have m8: "match_chunks 8 (entropy_bits entropy) = Some (map (\<lambda>b. bits_of 8 (unat b)) entropy)"
  proof -
    have "chunks 8 (concat (map (\<lambda>b. bits_of 8 (unat b)) entropy)) = map (\<lambda>b. bits_of 8 (unat b)) entropy"
      by (rule chunks_concat) (simp_all add: list_all_iff byte_bits_length)
    then show ?thesis
      using entropy_bits_nonempty [OF ne] by (simp add: match_chunks_def entropy_bits_def)
  qed
  show ?thesis
    unfolding mnemonicToEntropy_def
    by (simp add: split n mr divider tk dr m8 buffer_from_numbers_bits len
        deriveChecksumBits_eq Let_def del: split_words.simps)
qed

lemma map_result_total: "(\<And>x. f x \<noteq> None) \<Longrightarrow> map_result f xs \<noteq> None"
proof (induction xs)
  case Nil
  show ?case by simp
next
  case (Cons x xs)
  have "f x \<noteq> None" by (rule Cons.prems)
  then obtain r where r: "f x = Some r" by auto
  have "map_result f xs \<noteq> None" by (rule Cons.IH) (rule Cons.prems)
  then obtain rs where rs: "map_result f xs = Some rs" by auto
  show ?case by (simp add: r rs split: sum.splits)
qed

lemma word_to_bits_total: "word_to_bits P wordlist word \<noteq> None"
  by (simp add: word_to_bits_def lpad_zero split: option.splits)

lemma mnemonicToEntropy_returns: "mnemonicToEntropy P s mnemonic wordlist \<noteq> None"
proof -
  have "map_result (word_to_bits P wl) ws \<noteq> None" for wl ws
    by (rule map_result_total) (rule word_to_bits_total)
  then have mr: "(map_result (word_to_bits P wl) ws = None) = False" for wl ws
    by simp
  show ?thesis
    unfolding mnemonicToEntropy_def
    by (simp add: Let_def deriveChecksumBits_eq mr split: option.splits sum.splits)
qed

lemma valid_entropy_length_iff: "valid_entropy_length n = (n \<in> {16, 20, 24, 28, 32})"
proof
  assume "valid_entropy_length n"
  then have "16 \<le> n" "n \<le> 32" "n mod 4 = 0" by (simp_all add: valid_entropy_length_def)
  then show "n \<in> {16, 20, 24, 28, 32}" by simp presburger
next
  assume "n \<in> {16, 20, 24, 28, 32}"
  then show "valid_entropy_length n" by (auto simp: valid_entropy_length_def)
qed

lemma entropyToMnemonic_invalid_length:
  assumes "resolved_wordlist s wordlist = Some resolved"
    and "length entropy < 16 \<or> length entropy > 32 \<or> length entropy mod 4 \<noteq> 0"
  shows "entropyToMnemonic P s (EBuf entropy) wordlist = Some (Inl (TypeError INVALID_ENTROPY))"
  using assms by (auto simp: entropyToMnemonic_def resolved_wordlist_def)

lemma entropyToMnemonic_returns:
  assumes "resolved_wordlist s wordlist = Some resolved"
    and "valid_entropy_length (length entropy)"
  shows "entropyToMnemonic P s (EBuf entropy) wordlist =
    Some (Inr (join_with (utf8_bytes P (separator_of resolved)) (mnemonic_words P resolved entropy)))"
  using assms(2) assms(1) [unfolded resolved_wordlist_def] by (rule entropyToMnemonic_eq)

lemma entropy_bits_nth:
  "i < 8 * length buf \<Longrightarrow> entropy_bits buf ! i = hash_bit buf i"
proof -
  assume i: "i < 8 * length buf"
  have "concat (map (\<lambda>b. bits_of 8 (unat b)) buf) ! i =
      map (\<lambda>b. bits_of 8 (unat b)) buf ! (i div 8) ! (i mod 8)"
    by (rule concat_nth) (simp_all add: list_all_iff byte_bits_length i)
  moreover have "i div 8 < length buf" using i by auto
  ultimately show ?thesis
    by (simp add: entropy_bits_def hash_bit_def byte_bits_nth)
qed

lemma checksum_bits_first_bits:
  "length entropy * 8 div 32 \<le> 8 * length (sha256 P entropy) \<Longrightarrow>
   checksum_bits P entropy = first_bits (sha256 P entropy) (length entropy * 8 div 32)"
proof -
  assume le: "length entropy * 8 div 32 \<le> 8 * length (sha256 P entropy)"
  show ?thesis
  proof (rule nth_equalityI)
    show "length (checksum_bits P entropy) =
        length (first_bits (sha256 P entropy) (length entropy * 8 div 32))"
      using le by (simp add: checksum_bits_def first_bits_def entropy_bits_length)
  next
    fix i assume "i < length (checksum_bits P entropy)"
    then have i: "i < length entropy * 8 div 32" "i < 8 * length (sha256 P entropy)"
      using le by (simp_all add: checksum_bits_def entropy_bits_length)
    then show "checksum_bits P entropy ! i =
        first_bits (sha256 P entropy) (length entropy * 8 div 32) ! i"
      by (simp add: checksum_bits_def first_bits_def entropy_bits_nth)
  qed
qed

section \<open>\<open>generateMnemonic\<close> and the registry: properties\<close>

lemma every_word_equal_take:
  "every_word_equal wordlist current =
     (length wordlist \<le> length current \<and> take (length wordlist) current = wordlist)"
proof -
  have "every_word_equal wordlist current =
      (\<forall>i < length wordlist. i < length current \<and> wordlist ! i = current ! i)"
    by (auto simp: every_word_equal_def list_all_iff in_set_enumerate_eq)
  also have "\<dots> = (length wordlist \<le> length current \<and> take (length wordlist) current = wordlist)"
  proof (cases "length wordlist \<le> length current")
    case True
    then show ?thesis by (auto simp: list_eq_iff_nth_eq)
  next
    case False
    then have "length current < length wordlist" by simp
    with False show ?thesis by auto
  qed
  finally show ?thesis .
qed

lemma find_first:
  "x \<in> set xs \<Longrightarrow> Q x \<Longrightarrow> \<not> list_ex Q (takeWhile (\<lambda>y. y \<noteq> x) xs) \<Longrightarrow> List.find Q xs = Some x"
  by (induction xs) (auto split: if_splits)

lemma find_filter: "List.find Q xs = (case filter Q xs of [] \<Rightarrow> None | x # rest \<Rightarrow> Some x)"
  by (induction xs) auto

lemma getDefaultWordlist_find:
  "DEFAULT_WORDLIST s = Some current \<Longrightarrow>
   getDefaultWordlist s = Inr (List.find (begins_default s) (map fst (wordlists s)))"
proof -
  assume d: "DEFAULT_WORDLIST s = Some current"
  have "(\<lambda>lang. if lang = ''JA'' \<or> lang = ''EN'' then False
          else (case map_of (wordlists s) lang of None \<Rightarrow> False
                | Some wordlist \<Rightarrow> every_word_equal wordlist current)) = begins_default s"
    by (rule ext) (simp add: begins_default_def d every_word_equal_take split: option.splits)
  then show ?thesis
    by (simp add: getDefaultWordlist_def d find_filter split: list.splits)
qed

lemma trunc_of_int: "trunc (of_int n) = n"
  by (simp add: trunc_def)

lemma multiple_of_32_iff: "multiple_of_32 x = (\<exists>n. 32 dvd n \<and> x = Num (of_int n))"
proof (cases x)
  case (Num q)
  show ?thesis
  proof
    assume "multiple_of_32 x"
    with Num have "q = of_int (32 * \<lfloor>q / 32\<rfloor>)" by (simp add: multiple_of_32_def)
    with Num show "\<exists>n. 32 dvd n \<and> x = Num (of_int n)" by (metis dvd_triv_left)
  next
    assume "\<exists>n. 32 dvd n \<and> x = Num (of_int n)"
    then obtain m :: int where "x = Num (of_int (32 * m))" by (auto elim: dvdE)
    with Num have "q / 32 = of_int m" by simp
    with Num show "multiple_of_32 x" by (simp add: multiple_of_32_def)
  qed
qed (simp_all add: multiple_of_32_def)

lemma js_rem_32: "strict_equal (js_rem x 32) (Num 0) = multiple_of_32 x"
proof (cases x)
  case (Num q)
  define t where "t = trunc (q / 32)"
  have "(q - 32 * of_int t = 0) = (of_int \<lfloor>q / 32\<rfloor> = q / 32)"
  proof
    assume "q - 32 * of_int t = 0"
    then have eq: "q / 32 = of_int t" by simp
    show "of_int \<lfloor>q / 32\<rfloor> = q / 32" unfolding eq by simp
  next
    assume a: "of_int \<lfloor>q / 32\<rfloor> = q / 32"
    have "trunc (of_int \<lfloor>q / 32\<rfloor>) = \<lfloor>q / 32\<rfloor>" by (rule trunc_of_int)
    then have "t = \<lfloor>q / 32\<rfloor>" unfolding a t_def .
    with a show "q - 32 * of_int t = 0" by simp
  qed
  then have "(q - 32 * of_int (trunc (q / 32)) = 0) = (of_int \<lfloor>q / 32\<rfloor> = q / 32)"
    unfolding t_def .
  with Num show ?thesis by (simp add: js_rem_def strict_equal_def multiple_of_32_def)
qed (simp_all add: js_rem_def strict_equal_def multiple_of_32_def)

lemma js_quot_integer: "js_quot (Num (of_int (8 * m))) 8 = Num (of_int m)"
  by (simp add: js_quot_def)

lemma generateMnemonic_truthy:
  assumes "multiple_of_32 strength" and "strength \<noteq> Num 0"
  shows "generateMnemonic P s randomBytes (Some strength) rng wordlist g =
     (entropyToMnemonic P s (EBuf (fst (chosen_rng randomBytes rng (js_quot strength 8) g))) wordlist,
      snd (chosen_rng randomBytes rng (js_quot strength 8) g))"
proof -
  from assms have "truthy strength" by (cases strength) (simp_all add: truthy_def multiple_of_32_def)
  with assms(1) show ?thesis
    by (simp add: generateMnemonic_def js_rem_32 chosen_rng_def split: prod.splits option.splits)
qed

lemma generateMnemonic_falsy:
  "generateMnemonic P s randomBytes None rng wordlist g =
     generateMnemonic P s randomBytes (Some (Num 128)) rng wordlist g"
  "generateMnemonic P s randomBytes (Some (Num 0)) rng wordlist g =
     generateMnemonic P s randomBytes (Some (Num 128)) rng wordlist g"
  "generateMnemonic P s randomBytes (Some NaN) rng wordlist g =
     generateMnemonic P s randomBytes (Some (Num 128)) rng wordlist g"
  by (simp_all add: generateMnemonic_def truthy_def)

lemma generateMnemonic_not_multiple:
  assumes "\<not> multiple_of_32 strength" and "strength \<noteq> NaN"
  shows "generateMnemonic P s randomBytes (Some strength) rng wordlist g =
     (Some (Inl (TypeError INVALID_ENTROPY)), g)"
proof -
  from assms have "truthy strength" by (cases strength) (auto simp: truthy_def multiple_of_32_def)
  with assms(1) show ?thesis by (simp add: generateMnemonic_def js_rem_32)
qed

lemma generateMnemonic_128:
  "generateMnemonic P s randomBytes (Some (Num 128)) rng wordlist g =
     (entropyToMnemonic P s (EBuf (fst (chosen_rng randomBytes rng (Num 16) g))) wordlist,
      snd (chosen_rng randomBytes rng (Num 16) g))"
proof -
  have "multiple_of_32 (Num 128)" by (simp add: multiple_of_32_def)
  moreover have "js_quot (Num 128) 8 = Num 16" by (simp add: js_quot_def)
  ultimately show ?thesis
    using generateMnemonic_truthy [of "Num 128" P s randomBytes rng wordlist g] by simp
qed

lemma length_mnemonic_words_16:
  assumes "length bytes = 16"
  shows "length (mnemonic_words P resolved bytes) = 12"
proof -
  have "length (entropy_bits bytes @ checksum_bits P bytes) \<le> 132"
    "128 \<le> length (entropy_bits bytes @ checksum_bits P bytes)"
    using assms by (simp_all add: entropy_bits_length checksum_bits_def)
  then have "(length (entropy_bits bytes @ checksum_bits P bytes) + (11 - 1)) div 11 = 12"
    by presburger
  then show ?thesis
    by (simp add: mnemonic_words_def mnemonic_pieces_def length_chunks del: length_append)
qed

section \<open>The platform to evaluate on: properties\<close>

lemma schedule_numeral:
  "schedule (numeral k) ws =
     schedule (pred_numeral k)
       (add32 (add32 (sigma1 (ws ! 1)) (ws ! 6)) (add32 (sigma0 (ws ! 14)) (ws ! 15)) # ws)"
  by (simp add: numeral_eq_Suc)

lemma blocks_numeral:
  "blocks (numeral k) bytes = take 64 bytes # blocks (pred_numeral k) (drop 64 bytes)"
  by (simp add: numeral_eq_Suc)

lemma replicate_numeral: "replicate (numeral k) x = x # replicate (pred_numeral k) x"
  by (simp add: numeral_eq_Suc)

lemmas sha_ops = add32_def rotr_def shr_def not32_def Ch_def Maj_def Sigma0_def Sigma1_def
  sigma0_def sigma1_def

text \<open>The test vector of FIPS 180-4 for the message \<open>abc\<close>.\<close>

lemma sha256_digest_abc:
  "sha256_digest [97, 98, 99] =
     [186, 120, 22, 191, 143, 1, 207, 234, 65, 65, 64, 222, 93, 174, 34, 35,
      176, 3, 97, 163, 150, 23, 122, 156, 180, 16, 255, 97, 242, 0, 21, 173]"
  by (simp add: sha256_digest_def sha_pad_def compress_def K256_def H256_def be_bytes_def
      replicate_numeral schedule_numeral blocks_numeral sha_ops)

lemma sha256_digest_zero16:
  "sha256_digest (replicate 16 0) =
     [55, 71, 8, 255, 247, 113, 157, 213, 151, 158, 200, 117, 213, 108, 210, 40,
      111, 109, 60, 247, 236, 49, 122, 59, 37, 99, 42, 171, 40, 236, 55, 187]"
  by (simp add: sha256_digest_def sha_pad_def compress_def K256_def H256_def be_bytes_def
      replicate_numeral schedule_numeral blocks_numeral sha_ops)

lemma length_state_bytes: "length (state_bytes st) = 32"
  by (cases st rule: state_bytes.cases) (simp add: be_bytes_def)

lemma length_sha256_digest: "length (sha256_digest m) = 32"
  by (simp add: sha256_digest_def length_state_bytes)

lemma length_sha256_node: "length (sha256 node buf) = 32"
  by (simp add: node_def length_sha256_digest)

lemma sha256_node_zero16:
  "sha256 node (replicate 16 0) =
     [55, 71, 8, 255, 247, 113, 157, 213, 151, 158, 200, 117, 213, 108, 210, 40,
      111, 109, 60, 247, 236, 49, 122, 59, 37, 99, 42, 171, 40, 236, 55, 187]"
proof -
  have "map unat (replicate 16 (0 :: byte)) = replicate 16 0" by simp
  then show ?thesis by (simp add: node_def sha256_digest_zero16)
qed

lemma toString2_0: "toString2 0 = ''0''"
  by (subst toString2.simps) simp

lemma bits_of_8_0: "bits_of 8 0 = ''00000000''"
  by (simp add: bits_of_def toString2_0 replicate_numeral)

lemma entropy_bits_zero: "entropy_bits (replicate n 0) = replicate (8 * n) CHR ''0''"
proof (induction n)
  case 0
  show ?case by (simp add: entropy_bits_def)
next
  case (Suc n)
  have "entropy_bits (replicate (Suc n) 0) = ''00000000'' @ entropy_bits (replicate n 0)"
    by (simp add: entropy_bits_def bits_of_8_0)
  also have "\<dots> = replicate 8 CHR ''0'' @ replicate (8 * n) CHR ''0''"
    by (simp add: Suc replicate_numeral)
  also have "\<dots> = replicate (8 * Suc n) CHR ''0''"
    by (simp add: replicate_add [symmetric])
  finally show ?case .
qed

lemma toString2_55: "toString2 55 = ''110111''"
  by (simp add: toString2.simps [of 55] toString2.simps [of 27] toString2.simps [of 13]
      toString2.simps [of 6] toString2.simps [of 3] toString2.simps [of "Suc 0"])

lemma checksum_bits_zero16: "checksum_bits node (replicate 16 0) = ''0011''"
proof -
  have "entropy_bits (sha256 node (replicate 16 0)) =
      bits_of 8 55 @ entropy_bits (tl (sha256 node (replicate 16 0)))"
    by (simp add: sha256_node_zero16 entropy_bits_def)
  moreover have "bits_of 8 55 = ''00110111''"
    by (simp add: bits_of_def toString2_55 replicate_numeral)
  ultimately show ?thesis by (simp add: checksum_bits_def)
qed

lemma chunks_Cons:
  "0 < n \<Longrightarrow> chunks n (x # xs) = take n (x # xs) # chunks n (drop n (x # xs))"
  by (rule chunks_step) simp_all

lemma mnemonic_pieces_zero16:
  "mnemonic_pieces node (replicate 16 0) =
     [''00000000000'', ''00000000000'', ''00000000000'', ''00000000000'',
      ''00000000000'', ''00000000000'', ''00000000000'', ''00000000000'',
      ''00000000000'', ''00000000000'', ''00000000000'', ''00000000011'']"
  unfolding mnemonic_pieces_def checksum_bits_zero16 entropy_bits_zero
  by (simp add: replicate_numeral chunks_Cons)

lemma binaryToByte_zero: "binaryToByte ''00000000000'' = Some 0"
  by (simp add: binaryToByte_def is_bit_def)

lemma binaryToByte_three: "binaryToByte ''00000000011'' = Some 3"
  by (simp add: binaryToByte_def is_bit_def)

lemma utf8_units_ascii: "list_all (\<lambda>u. u < 0x80) us \<Longrightarrow> utf8_units us = us"
  by (induction us rule: utf8_units.induct) simp_all

lemma utf16_units_ascii: "list_all (\<lambda>b. b < 0x80) bs \<Longrightarrow> utf16_units bs = bs"
  by (induction bs) simp_all

lemma utf8_bytes_unary: "utf8_bytes node (replicate n 0x61) = replicate n 0x61"
proof -
  have "utf8_units (replicate n 0x61) = replicate n 0x61"
    by (rule utf8_units_ascii) (simp add: list_all_iff)
  then show ?thesis by (simp add: node_def utf8_encode_def)
qed

lemma utf8_string_unary: "utf8_string node (replicate n 0x61) = replicate n 0x61"
proof -
  have "utf16_units (replicate n 0x61) = replicate n 0x61"
    by (rule utf16_units_ascii) (simp add: list_all_iff)
  then show ?thesis by (simp add: node_def utf8_decode_def)
qed

lemma nfkd_unary: "nfkd node (replicate n 0x61) = replicate n 0x61"
  by (induction n) (simp_all add: node_def nfkd_known_def)

lemma normalize_str_unary: "normalize_str node (Some (unary_word i)) = unary_word i"
  using nfkd_unary [of "Suc i"] by (simp add: normalize_str_def unary_word_def)

lemma unary_word_readable:
  "utf8_string node (utf8_bytes node (normalize_str node (Some (unary_word i)))) = unary_word i \<and>
   0x20 \<notin> set (utf8_bytes node (normalize_str node (Some (unary_word i))))"
  unfolding normalize_str_unary
  by (simp add: unary_word_def utf8_bytes_unary utf8_string_unary del: replicate_Suc)

lemma unary_word_inj: "unary_word i = unary_word j \<Longrightarrow> i = j"
proof -
  assume "unary_word i = unary_word j"
  then have "length (unary_word i) = length (unary_word j)" by simp
  then show ?thesis by (simp add: unary_word_def)
qed

lemma length_more_words: "length more_words = 2047"
  by (simp add: more_words_def del: upt_rec_numeral)

lemma more_words_nth: "i < 2047 \<Longrightarrow> more_words ! i = unary_word (Suc i)"
  by (simp add: more_words_def del: upt_rec_numeral)

lemma more_words_unary: "w \<in> set more_words \<Longrightarrow> \<exists>i. w = unary_word i"
  by (auto simp: more_words_def simp del: upt_rec_numeral)

lemma distinct_more_words: "distinct more_words"
  unfolding more_words_def
  by (auto simp: distinct_map inj_on_def simp del: upt_rec_numeral dest: unary_word_inj)

lemma more_words_readable:
  "list_all (\<lambda>w. utf8_string node (utf8_bytes node (normalize_str node (Some w))) = w \<and>
                 0x20 \<notin> set (utf8_bytes node (normalize_str node (Some w)))) more_words"
  unfolding list_all_iff
proof
  fix w assume "w \<in> set more_words"
  then obtain i where "w = unary_word i" using more_words_unary by blast
  then show "utf8_string node (utf8_bytes node (normalize_str node (Some w))) = w \<and>
      0x20 \<notin> set (utf8_bytes node (normalize_str node (Some w)))"
    using unary_word_readable [of i] by simp
qed

lemma first_word_fresh:
  "(\<And>i. w \<noteq> unary_word i) \<Longrightarrow> w \<notin> set more_words"
  using more_words_unary by blast

lemma unary_word_0_fresh: "unary_word 0 \<notin> set more_words"
proof
  assume "unary_word 0 \<in> set more_words"
  then obtain i where "i \<in> set [1..<2048]" "unary_word 0 = unary_word i"
    by (auto simp: more_words_def simp del: upt_rec_numeral)
  then show False using unary_word_inj [of 0 i] by (simp del: upt_rec_numeral)
qed

lemma test_wordlist_readable: "readable_wordlist node test_wordlist"
  using unary_word_readable [of 0]
  by (simp add: readable_wordlist_def test_wordlist_def distinct_more_words more_words_readable
      length_more_words unary_word_0_fresh)

lemma japanese_first_word_bytes:
  "utf8_bytes node (normalize_str node (Some JAPANESE_FIRST_WORD)) =
     [0xE3, 0x81, 0x82, 0xE3, 0x81, 0x84, 0xE3, 0x81, 0x93, 0xE3, 0x81, 0x8F, 0xE3, 0x81, 0x97,
      0xE3, 0x82, 0x93]"
  by (simp add: node_def normalize_str_def nfkd_known_def utf8_encode_def JAPANESE_FIRST_WORD_def)

lemma japanese_first_word_readable:
  "utf8_string node (utf8_bytes node (normalize_str node (Some JAPANESE_FIRST_WORD))) =
     JAPANESE_FIRST_WORD"
  unfolding japanese_first_word_bytes
  by (simp add: node_def utf8_decode_def JAPANESE_FIRST_WORD_def continuation_def)

lemma japanese_like_wordlist_readable: "readable_wordlist node japanese_like_wordlist"
proof -
  have "JAPANESE_FIRST_WORD \<noteq> unary_word i" for i
    by (simp add: JAPANESE_FIRST_WORD_def unary_word_def)
  then have "JAPANESE_FIRST_WORD \<notin> set more_words" by (rule first_word_fresh)
  moreover have "0x20 \<notin> set (utf8_bytes node (normalize_str node (Some JAPANESE_FIRST_WORD)))"
    unfolding japanese_first_word_bytes by simp
  ultimately show ?thesis
    by (simp add: readable_wordlist_def japanese_like_wordlist_def distinct_more_words
        more_words_readable japanese_first_word_readable length_more_words)
qed

lemma space_bytes: "utf8_bytes node (ascii '' '') = [0x20]"
  by (simp add: node_def utf8_encode_def ascii_def)

lemma ideographic_space_bytes: "utf8_bytes node [0x3000] = [0xE3, 0x80, 0x80]"
  by (simp add: node_def utf8_encode_def)

lemma element_at_first: "element_at (w # ws) (Some 0) = Some w"
  by (simp add: element_at_def)

lemma element_at_fourth: "element_at (w # more_words) (Some 3) = Some (unary_word 3)"
proof -
  have "more_words ! 2 = unary_word 3" using more_words_nth [of 2] by simp
  then show ?thesis by (simp add: element_at_def length_more_words)
qed

lemma mnemonic_words_zero16:
  "mnemonic_words node (w # more_words) (replicate 16 0) =
     replicate 11 (utf8_bytes node (normalize_str node (Some w))) @ [[0x61, 0x61, 0x61, 0x61]]"
proof -
  have three: "utf8_bytes node (normalize_str node (Some (unary_word 3))) = [0x61, 0x61, 0x61, 0x61]"
    unfolding normalize_str_unary by (simp add: unary_word_def utf8_bytes_unary del: replicate_Suc)
      (simp add: numeral_eq_Suc)
  show ?thesis
    unfolding mnemonic_words_def mnemonic_pieces_zero16
    by (simp add: word_bytes_def binaryToByte_zero binaryToByte_three element_at_first
        element_at_fourth three replicate_numeral)
qed

lemma spec_first_word_bytes:
  "utf8_bytes node (normalize_str node (Some SPEC_FIRST_WORD)) =
     [0xE3, 0x81, 0x82, 0xE3, 0x81, 0x84, 0xE3, 0x81, 0x93, 0xE3, 0x81, 0x86, 0xE3, 0x81, 0x97,
      0xE3, 0x82, 0x93]"
  by (simp add: node_def normalize_str_def nfkd_known_def utf8_encode_def SPEC_FIRST_WORD_def)

lemma unary_word_0_bytes: "utf8_bytes node (normalize_str node (Some (unary_word 0))) = [0x61]"
  unfolding normalize_str_unary
  by (simp add: unary_word_def utf8_bytes_unary del: replicate_Suc) simp

lemma valid_entropy_length_16: "valid_entropy_length (length (replicate 16 (0 :: byte)))"
  by (simp add: valid_entropy_length_def)

lemma japanese_like_mnemonic_zero16:
  "entropyToMnemonic node no_default (EBuf (replicate 16 0)) (Some japanese_like_wordlist) =
     Some (Inr (join_with [0xE3, 0x80, 0x80]
       (replicate 11
          [0xE3, 0x81, 0x82, 0xE3, 0x81, 0x84, 0xE3, 0x81, 0x93, 0xE3, 0x81, 0x8F, 0xE3, 0x81,
           0x97, 0xE3, 0x82, 0x93] @
        [[0x61, 0x61, 0x61, 0x61]])))"
proof -
  have r: "resolved_wordlist no_default (Some japanese_like_wordlist) =
      Some (JAPANESE_FIRST_WORD # more_words)"
    by (simp add: resolved_wordlist_def japanese_like_wordlist_def)
  have v: "valid_entropy_length (length (replicate 16 (0 :: byte)))"
    by (simp add: valid_entropy_length_def)
  have s: "utf8_bytes node (separator_of (JAPANESE_FIRST_WORD # more_words)) = [0xE3, 0x80, 0x80]"
    by (simp add: separator_of_def element_at_first ideographic_space_bytes)
  show ?thesis
    unfolding entropyToMnemonic_returns [OF r v] s mnemonic_words_zero16
      japanese_first_word_bytes ..
qed

lemma spaced_word_bytes:
  "utf8_bytes node (normalize_str node (Some (ascii ''a a''))) = [0x61, 0x20, 0x61]"
  by (simp add: node_def normalize_str_def nfkd_known_def utf8_encode_def ascii_def)

lemma spaced_mnemonic_zero16:
  "entropyToMnemonic node no_default (EBuf (replicate 16 0)) (Some spaced_wordlist) =
     Some (Inr (join_with [0x20] (replicate 11 [0x61, 0x20, 0x61] @ [[0x61, 0x61, 0x61, 0x61]])))"
proof -
  have r: "resolved_wordlist no_default (Some spaced_wordlist) = Some (ascii ''a a'' # more_words)"
    by (simp add: resolved_wordlist_def spaced_wordlist_def)
  have v: "valid_entropy_length (length (replicate 16 (0 :: byte)))"
    by (simp add: valid_entropy_length_def)
  have s: "utf8_bytes node (separator_of (ascii ''a a'' # more_words)) = [0x20]"
    by (simp add: separator_of_def element_at_first JAPANESE_FIRST_WORD_def space_bytes)
      (simp add: ascii_def)
  show ?thesis
    unfolding entropyToMnemonic_returns [OF r v] s mnemonic_words_zero16 spaced_word_bytes ..
qed

lemma spaced_wordlist_distinct: "length spaced_wordlist = 2048 \<and> distinct spaced_wordlist"
proof -
  have "ascii ''a a'' \<noteq> unary_word i" for i
  proof
    assume "ascii ''a a'' = unary_word i"
    moreover have "0x20 \<in> set (ascii ''a a'')" by (simp add: ascii_def)
    moreover have "0x20 \<notin> set (unary_word i)" by (simp add: unary_word_def)
    ultimately show False by simp
  qed
  then have "ascii ''a a'' \<notin> set more_words" by (rule first_word_fresh)
  then show ?thesis
    by (simp add: spaced_wordlist_def length_more_words distinct_more_words)
qed

lemma toHex_zero16: "toHex (replicate 16 0) = ''00000000000000000000000000000000''"
  by (simp add: toHex_def hex_digit_def replicate_numeral)

section \<open>The round trip\<close>

text \<open>
  C1, amended. For an entropy buffer \<open>E\<close> of 16, 20, 24, 28 or 32 bytes and a wordlist of
  2048 words, no word twice, whose words are written without a byte \<open>0x20\<close> and read back
  unchanged, and whose first word is not the Japanese first word (so the separator is the
  ASCII space), \<open>mnemonicToEntropy\<close> of the mnemonic that \<open>entropyToMnemonic\<close> returns for
  \<open>E\<close> is the lower-case hexadecimal encoding of \<open>E\<close>. The platform encodes the ASCII
  space as the byte \<open>0x20\<close> and its hash has 32 bytes.
\<close>

theorem mnemonicToEntropy_entropyToMnemonic:
  assumes "length entropy \<in> {16, 20, 24, 28, 32}"
    and "readable_wordlist P wordlist"
    and "element_at wordlist (Some 0) \<noteq> Some JAPANESE_FIRST_WORD"
    and "utf8_bytes P (ascii '' '') = [0x20]"
    and "length (sha256 P entropy) = 32"
  shows "\<exists>mnemonic.
           entropyToMnemonic P s (EBuf entropy) (Some wordlist) = Some (Inr mnemonic) \<and>
           mnemonicToEntropy P s (MBuf mnemonic) (Some wordlist) = Some (Inr (toHex entropy))"
proof -
  from assms(1) have v: "valid_entropy_length (length entropy)"
    by (simp only: valid_entropy_length_iff)
  have r: "resolved_wordlist s (Some wordlist) = Some wordlist"
    by (simp add: resolved_wordlist_def)
  have sep: "utf8_bytes P (separator_of wordlist) = [0x20]"
    using assms(3,4) by (simp add: separator_of_def)
  have "entropyToMnemonic P s (EBuf entropy) (Some wordlist) =
      Some (Inr (join_with [0x20] (mnemonic_words P wordlist entropy)))"
    using entropyToMnemonic_returns [OF r v] by (simp only: sep)
  moreover have "mnemonicToEntropy P s (MBuf (join_with [0x20] (mnemonic_words P wordlist entropy)))
      (Some wordlist) = Some (Inr (toHex entropy))"
    using assms(5) v assms(2) by (rule mnemonicToEntropy_words)
  ultimately show ?thesis by blast
qed

theorem mnemonicToEntropy_entropyToMnemonic_witness:
  "length (replicate 16 (0 :: byte)) \<in> {16, 20, 24, 28, 32} \<and>
   readable_wordlist node test_wordlist \<and>
   element_at test_wordlist (Some 0) \<noteq> Some JAPANESE_FIRST_WORD \<and>
   utf8_bytes node (ascii '' '') = [0x20] \<and>
   length (sha256 node (replicate 16 0)) = 32 \<and>
   entropyToMnemonic node no_default (EBuf (replicate 16 0)) (Some test_wordlist) =
     Some (Inr (join_with [0x20] (replicate 11 [0x61] @ [[0x61, 0x61, 0x61, 0x61]]))) \<and>
   mnemonicToEntropy node no_default
     (MBuf (join_with [0x20] (replicate 11 [0x61] @ [[0x61, 0x61, 0x61, 0x61]])))
     (Some test_wordlist) = Some (Inr ''00000000000000000000000000000000'')"
proof -
  have l: "length (replicate 16 (0 :: byte)) \<in> {16, 20, 24, 28, 32}" by simp
  have f: "element_at test_wordlist (Some 0) \<noteq> Some JAPANESE_FIRST_WORD"
    by (simp add: test_wordlist_def element_at_first unary_word_def JAPANESE_FIRST_WORD_def)
  have r: "resolved_wordlist no_default (Some test_wordlist) = Some (unary_word 0 # more_words)"
    by (simp add: resolved_wordlist_def test_wordlist_def)
  have v: "valid_entropy_length (length (replicate 16 (0 :: byte)))"
    by (simp add: valid_entropy_length_def)
  have s: "utf8_bytes node (separator_of (unary_word 0 # more_words)) = [0x20]"
    by (simp add: separator_of_def element_at_first unary_word_def JAPANESE_FIRST_WORD_def
        space_bytes)
  have e: "entropyToMnemonic node no_default (EBuf (replicate 16 0)) (Some test_wordlist) =
      Some (Inr (join_with [0x20] (replicate 11 [0x61] @ [[0x61, 0x61, 0x61, 0x61]])))"
    unfolding entropyToMnemonic_returns [OF r v] s mnemonic_words_zero16 unary_word_0_bytes ..
  from mnemonicToEntropy_entropyToMnemonic
    [OF l test_wordlist_readable f space_bytes length_sha256_node, of no_default]
  obtain m where
    m: "entropyToMnemonic node no_default (EBuf (replicate 16 0)) (Some test_wordlist) = Some (Inr m)"
    and d: "mnemonicToEntropy node no_default (MBuf m) (Some test_wordlist) =
      Some (Inr (toHex (replicate 16 0)))"
    by blast
  from m e have "m = join_with [0x20] (replicate 11 [0x61] @ [[0x61, 0x61, 0x61, 0x61]])"
    by simp
  with d have "mnemonicToEntropy node no_default
     (MBuf (join_with [0x20] (replicate 11 [0x61] @ [[0x61, 0x61, 0x61, 0x61]])))
     (Some test_wordlist) = Some (Inr ''00000000000000000000000000000000'')"
    by (simp only: toHex_zero16)
  with l test_wordlist_readable f space_bytes length_sha256_node e show ?thesis
    by (simp only: simp_thms)
qed

text \<open>
  C1 as stated fails: a wordlist of 2048 different words whose first word contains a
  space. The mnemonic of 16 zero bytes has twelve words; read back, its bytes split into
  23 words, and the call throws.
\<close>

theorem mnemonicToEntropy_entropyToMnemonic_counterexample:
  "length (replicate 16 (0 :: byte)) = 16 \<and>
   length spaced_wordlist = 2048 \<and> distinct spaced_wordlist \<and>
   entropyToMnemonic node no_default (EBuf (replicate 16 0)) (Some spaced_wordlist) =
     Some (Inr (join_with [0x20] (replicate 11 [0x61, 0x20, 0x61] @ [[0x61, 0x61, 0x61, 0x61]]))) \<and>
   length (split_words
     (join_with [0x20] (replicate 11 [0x61, 0x20, 0x61] @ [[0x61, 0x61, 0x61, 0x61]])) [] []) = 23 \<and>
   mnemonicToEntropy node no_default
     (MBuf (join_with [0x20] (replicate 11 [0x61, 0x20, 0x61] @ [[0x61, 0x61, 0x61, 0x61]])))
     (Some spaced_wordlist) = Some (Inl (Error INVALID_MNEMONIC))"
proof -
  let ?m = "join_with [0x20] (replicate 11 [0x61, 0x20, 0x61 :: byte] @ [[0x61, 0x61, 0x61, 0x61]])"
  have n: "length (split_words ?m [] []) = 23"
    by (simp add: replicate_numeral split_words_step del: split_words.simps(2))
  have reject: "mnemonicToEntropy node no_default (MBuf ?m) (Some spaced_wordlist) =
      Some (Inl (Error INVALID_MNEMONIC))"
    unfolding mnemonicToEntropy_def by (simp add: n del: split_words.simps join_with.simps)
  show ?thesis
    using spaced_wordlist_distinct spaced_mnemonic_zero16 reject n by simp
qed

lemma indexOf_absent: "x \<notin> set xs \<Longrightarrow> indexOf xs x = None"
  by (induction xs) auto

lemma map_result_throws: "f x = Some (Inl e) \<Longrightarrow> map_result f (x # xs) = Some (Inl e)"
  by simp

text \<open>
  The conditions of the round trip on the wordlist are needed. With a word that
  normalisation changes, the decoder does not find the word it reads.
\<close>

lemma roundtrip_fails_precomposed:
  "length precomposed_wordlist = 2048 \<and> distinct precomposed_wordlist \<and>
   entropyToMnemonic node no_default (EBuf (replicate 16 0)) (Some precomposed_wordlist) =
     Some (Inr (join_with [0x20] (replicate 11 [0x65, 0xCC, 0x81] @ [[0x61, 0x61, 0x61, 0x61]]))) \<and>
   mnemonicToEntropy node no_default
     (MBuf (join_with [0x20] (replicate 11 [0x65, 0xCC, 0x81] @ [[0x61, 0x61, 0x61, 0x61]])))
     (Some precomposed_wordlist) = Some (Inl (Error INVALID_MNEMONIC))"
proof -
  let ?ws = "replicate 11 [0x65, 0xCC, 0x81 :: byte] @ [[0x61, 0x61, 0x61, 0x61]]"
  have fresh: "[0xE9] \<notin> set more_words"
    by (rule first_word_fresh) (simp add: unary_word_def)
  have wl: "length precomposed_wordlist = 2048 \<and> distinct precomposed_wordlist"
    using fresh by (simp add: precomposed_wordlist_def length_more_words distinct_more_words)
  have bytes: "utf8_bytes node (normalize_str node (Some [0xE9])) = [0x65, 0xCC, 0x81]"
    by (simp add: node_def normalize_str_def nfkd_known_def utf8_encode_def)
  have r: "resolved_wordlist no_default (Some precomposed_wordlist) = Some ([0xE9] # more_words)"
    by (simp add: resolved_wordlist_def precomposed_wordlist_def)
  have s: "utf8_bytes node (separator_of ([0xE9] # more_words)) = [0x20]"
    by (simp add: separator_of_def element_at_first JAPANESE_FIRST_WORD_def space_bytes)
  have e: "entropyToMnemonic node no_default (EBuf (replicate 16 0)) (Some precomposed_wordlist) =
      Some (Inr (join_with [0x20] ?ws))"
    unfolding entropyToMnemonic_returns [OF r valid_entropy_length_16] s mnemonic_words_zero16
      bytes ..
  have split: "split_words (join_with [0x20] ?ws) [] [] = ?ws"
    by (simp add: replicate_numeral split_words_step del: split_words.simps(2))
  have decoded: "utf8_string node [0x65, 0xCC, 0x81] = [0x65, 0x301]"
    by (simp add: node_def utf8_decode_def continuation_def)
  have "[0x65, 0x301] \<notin> set more_words"
    by (rule first_word_fresh) (simp add: unary_word_def)
  then have "indexOf precomposed_wordlist [0x65, 0x301] = None"
    by (intro indexOf_absent) (simp add: precomposed_wordlist_def)
  then have w: "word_to_bits node precomposed_wordlist [0x65, 0xCC, 0x81] =
      Some (Inl (Error INVALID_MNEMONIC))"
    by (simp add: word_to_bits_def decoded)
  have mr: "map_result (word_to_bits node precomposed_wordlist) ?ws =
      Some (Inl (Error INVALID_MNEMONIC))"
    by (simp add: replicate_numeral
        map_result_throws [of "word_to_bits node precomposed_wordlist" "[0x65, 0xCC, 0x81]", OF w]
        del: map_result.simps)
  have d: "mnemonicToEntropy node no_default (MBuf (join_with [0x20] ?ws))
      (Some precomposed_wordlist) = Some (Inl (Error INVALID_MNEMONIC))"
    unfolding mnemonicToEntropy_def
    by (simp add: split mr del: split_words.simps join_with.simps map_result.simps)
  from wl e d show ?thesis by simp
qed

text \<open>With a word that is twice in the list, the decoder finds its first position.\<close>

lemma roundtrip_fails_repeated:
  "length repeated_wordlist = 2048 \<and>
   entropyToMnemonic node no_default (EBuf (replicate 16 0)) (Some repeated_wordlist) =
     Some (Inr (join_with [0x20] (replicate 12 [0x61]))) \<and>
   mnemonicToEntropy node no_default (MBuf (join_with [0x20] (replicate 12 [0x61])))
     (Some repeated_wordlist) = Some (Inl (Error INVALID_CHECKSUM))"
proof -
  let ?ws = "replicate 12 [0x61 :: byte]"
  have el: "element_at repeated_wordlist (Some 0) = Some (unary_word 0)"
    "element_at repeated_wordlist (Some 3) = Some (unary_word 0)"
    by (simp_all add: element_at_def repeated_wordlist_def)
  have words: "mnemonic_words node repeated_wordlist (replicate 16 0) = ?ws"
    unfolding mnemonic_words_def mnemonic_pieces_zero16
    by (simp add: word_bytes_def binaryToByte_zero binaryToByte_three el unary_word_0_bytes
        replicate_numeral)
  have r: "resolved_wordlist no_default (Some repeated_wordlist) = Some repeated_wordlist"
    by (simp add: resolved_wordlist_def)
  have s: "utf8_bytes node (separator_of repeated_wordlist) = [0x20]"
    by (simp add: separator_of_def el unary_word_def JAPANESE_FIRST_WORD_def space_bytes)
  have e: "entropyToMnemonic node no_default (EBuf (replicate 16 0)) (Some repeated_wordlist) =
      Some (Inr (join_with [0x20] ?ws))"
    unfolding entropyToMnemonic_returns [OF r valid_entropy_length_16] s words ..
  have split: "split_words (join_with [0x20] ?ws) [] [] = ?ws"
    by (simp add: replicate_numeral split_words_step del: split_words.simps(2))
  have idx: "indexOf repeated_wordlist [0x61] = Some 0"
  proof -
    have rw: "repeated_wordlist = [0x61] # replicate 2047 (unary_word 0)"
      by (simp add: repeated_wordlist_def unary_word_def replicate_numeral [of "num.Bit0 _"])
    show ?thesis unfolding rw by simp
  qed
  have eleven: "bits_of 11 0 = ''00000000000''"
    by (simp add: bits_of_def toString2_0 replicate_numeral)
  have w: "word_to_bits node repeated_wordlist [0x61] = Some (Inr ''00000000000'')"
    using utf8_string_unary [of 1] by (simp add: word_to_bits_def idx lpad_zero eleven)
  have mr: "map_result (word_to_bits node repeated_wordlist) ?ws =
      Some (Inr (replicate 12 ''00000000000''))"
    by (simp add: replicate_numeral w)
  have bits: "concat (replicate 12 ''00000000000'') = replicate 132 CHR ''0''"
    by (simp add: replicate_numeral)
  have m8: "match_chunks 8 (replicate 128 CHR ''0'') = Some (replicate 16 ''00000000'')"
    by (simp add: match_chunks_def replicate_numeral chunks_Cons)
  have eight: "binaryToByte ''00000000'' = Some 0"
    by (simp add: binaryToByte_def is_bit_def)
  have bytes: "buffer_from_numbers (replicate 16 (binaryToByte ''00000000'')) = replicate 16 0"
    by (simp add: buffer_from_numbers_def eight)
  have cs: "deriveChecksumBits node (replicate 16 0) = Some ''0011''"
    by (simp add: deriveChecksumBits_eq checksum_bits_zero16)
  have four: "replicate 4 CHR ''0'' = ''0000''"
    by (simp add: numeral_eq_Suc)
  have td: "take 128 (replicate 132 CHR ''0'') = replicate 128 CHR ''0''"
    "drop 128 (replicate 132 CHR ''0'') = ''0000''"
    by (simp_all add: four)
  have d: "mnemonicToEntropy node no_default (MBuf (join_with [0x20] ?ws))
      (Some repeated_wordlist) = Some (Inl (Error INVALID_CHECKSUM))"
    unfolding mnemonicToEntropy_def
    by (simp add: split mr bits td m8 bytes cs four Let_def
        del: split_words.simps join_with.simps map_result.simps replicate_numeral)
  have "length repeated_wordlist = 2048" by (simp add: repeated_wordlist_def)
  with e d show ?thesis by simp
qed


section \<open>Where \<open>mnemonicToEntropy\<close> splits the bytes\<close>

text \<open>
  C2 fails on the code for a mnemonic given as bytes: the loop compares each byte, a
  number below 256, with \<open>0x3000\<close>, so the three bytes of U+3000 never end a word. The
  mnemonic that \<open>entropyToMnemonic\<close> returns for a wordlist that starts with the Japanese
  first word stays one word, and \<open>mnemonicToEntropy\<close> rejects it; so do the bytes of
  \<open>a\<close>, U+3000, \<open>b\<close>, U+3000, \<open>c\<close>.
\<close>

theorem mnemonicToEntropy_ideographic_space:
  "split_words [0x61, 0xE3, 0x80, 0x80, 0x62, 0xE3, 0x80, 0x80, 0x63] [] [] =
     [[0x61, 0xE3, 0x80, 0x80, 0x62, 0xE3, 0x80, 0x80, 0x63]] \<and>
   readable_wordlist node japanese_like_wordlist \<and>
   entropyToMnemonic node no_default (EBuf (replicate 16 0)) (Some japanese_like_wordlist) =
     Some (Inr (join_with [0xE3, 0x80, 0x80]
       (replicate 11
          [0xE3, 0x81, 0x82, 0xE3, 0x81, 0x84, 0xE3, 0x81, 0x93, 0xE3, 0x81, 0x8F, 0xE3, 0x81,
           0x97, 0xE3, 0x82, 0x93] @
        [[0x61, 0x61, 0x61, 0x61]]))) \<and>
   length (split_words
     (join_with [0xE3, 0x80, 0x80]
       (replicate 11
          [0xE3, 0x81, 0x82, 0xE3, 0x81, 0x84, 0xE3, 0x81, 0x93, 0xE3, 0x81, 0x8F, 0xE3, 0x81,
           0x97, 0xE3, 0x82, 0x93] @
        [[0x61, 0x61, 0x61, 0x61]])) [] []) = 1 \<and>
   mnemonicToEntropy node no_default
     (MBuf (join_with [0xE3, 0x80, 0x80]
       (replicate 11
          [0xE3, 0x81, 0x82, 0xE3, 0x81, 0x84, 0xE3, 0x81, 0x93, 0xE3, 0x81, 0x8F, 0xE3, 0x81,
           0x97, 0xE3, 0x82, 0x93] @
        [[0x61, 0x61, 0x61, 0x61]])))
     (Some japanese_like_wordlist) = Some (Inl (Error INVALID_MNEMONIC))"
proof -
  let ?m = "join_with [0xE3, 0x80, 0x80]
       (replicate 11
          [0xE3, 0x81, 0x82, 0xE3, 0x81, 0x84, 0xE3, 0x81, 0x93, 0xE3, 0x81, 0x8F, 0xE3, 0x81,
           0x97, 0xE3, 0x82, 0x93 :: byte] @
        [[0x61, 0x61, 0x61, 0x61]])"
  have "0x20 \<notin> set ?m" by (simp add: replicate_numeral)
  then have one: "split_words ?m [] [] = [?m]" by (rule split_words_no_space)
  have small: "split_words [0x61, 0xE3, 0x80, 0x80, 0x62, 0xE3, 0x80, 0x80, 0x63] [] [] =
     [[0x61, 0xE3, 0x80, 0x80, 0x62, 0xE3, 0x80, 0x80, 0x63]]"
    by (rule split_words_no_space) simp
  have reject: "mnemonicToEntropy node no_default (MBuf ?m) (Some japanese_like_wordlist) =
      Some (Inl (Error INVALID_MNEMONIC))"
    unfolding mnemonicToEntropy_def by (simp add: one del: split_words.simps join_with.simps)
  show ?thesis
    using small japanese_like_wordlist_readable japanese_like_mnemonic_zero16 reject
    by (simp add: one del: split_words.simps join_with.simps)
qed

lemma mnemonicToEntropy_string:
  "mnemonicToEntropy P s (MStr str) wordlist =
     mnemonicToEntropy P s (MBuf (utf8_bytes P (normalize_str P (Some str)))) wordlist"
  unfolding mnemonicToEntropy_def by (simp only: mnemonic_arg.case)

text \<open>
  Given as a string, the same mnemonic is read: normalisation turns U+3000 into U+0020
  before the loop sees the bytes.
\<close>

lemma mnemonicToEntropy_ideographic_space_string:
  "mnemonicToEntropy node no_default (MStr japanese_like_sentence) (Some japanese_like_wordlist) =
     Some (Inr ''00000000000000000000000000000000'')"
proof -
  have "utf8_bytes node (normalize_str node (Some japanese_like_sentence)) =
      join_with [0x20] (mnemonic_words node japanese_like_wordlist (replicate 16 0))"
    unfolding japanese_like_wordlist_def mnemonic_words_zero16 japanese_first_word_bytes
    by (simp add: japanese_like_sentence_def node_def normalize_str_def nfkd_known_def
        utf8_encode_def JAPANESE_FIRST_WORD_def replicate_numeral)
  moreover have "mnemonicToEntropy node no_default
      (MBuf (join_with [0x20] (mnemonic_words node japanese_like_wordlist (replicate 16 0))))
      (Some japanese_like_wordlist) = Some (Inr (toHex (replicate 16 0)))"
    using length_sha256_node valid_entropy_length_16 japanese_like_wordlist_readable
    by (rule mnemonicToEntropy_words)
  ultimately show ?thesis
    by (simp only: mnemonicToEntropy_string toHex_zero16)
qed

section \<open>The separator of \<open>entropyToMnemonic\<close>\<close>

text \<open>
  C3, amended. For an entropy buffer of 16, 20, 24, 28 or 32 bytes, \<open>entropyToMnemonic\<close>
  returns the words joined by the UTF-8 bytes of one ASCII space, except that the
  separator is U+3000 when the first word of the wordlist in use is the word of the code
  units U+3042 U+3044 U+3053 U+304F U+3057 U+3093.
\<close>

theorem entropyToMnemonic_separator:
  assumes "length entropy \<in> {16, 20, 24, 28, 32}"
    and "resolved_wordlist s wordlist = Some resolved"
  shows "entropyToMnemonic P s (EBuf entropy) wordlist =
    Some (Inr (join_with
      (utf8_bytes P
         (if element_at resolved (Some 0) = Some [0x3042, 0x3044, 0x3053, 0x304F, 0x3057, 0x3093]
          then [0x3000] else ascii '' ''))
      (mnemonic_words P resolved entropy)))"
proof -
  from assms(1) have "valid_entropy_length (length entropy)"
    by (simp only: valid_entropy_length_iff)
  with assms(2) have "entropyToMnemonic P s (EBuf entropy) wordlist =
    Some (Inr (join_with (utf8_bytes P (separator_of resolved)) (mnemonic_words P resolved entropy)))"
    by (rule entropyToMnemonic_returns)
  then show ?thesis by (simp add: separator_of_def JAPANESE_FIRST_WORD_def)
qed

theorem entropyToMnemonic_separator_witness:
  "length (replicate 16 (0 :: byte)) \<in> {16, 20, 24, 28, 32} \<and>
   resolved_wordlist no_default (Some japanese_like_wordlist) = Some japanese_like_wordlist \<and>
   resolved_wordlist no_default (Some test_wordlist) = Some test_wordlist \<and>
   entropyToMnemonic node no_default (EBuf (replicate 16 0)) (Some japanese_like_wordlist) =
     Some (Inr (join_with [0xE3, 0x80, 0x80]
       (replicate 11
          [0xE3, 0x81, 0x82, 0xE3, 0x81, 0x84, 0xE3, 0x81, 0x93, 0xE3, 0x81, 0x8F, 0xE3, 0x81,
           0x97, 0xE3, 0x82, 0x93] @
        [[0x61, 0x61, 0x61, 0x61]]))) \<and>
   entropyToMnemonic node no_default (EBuf (replicate 16 0)) (Some test_wordlist) =
     Some (Inr (join_with [0x20] (replicate 11 [0x61] @ [[0x61, 0x61, 0x61, 0x61]])))"
proof -
  have l: "length (replicate 16 (0 :: byte)) \<in> {16, 20, 24, 28, 32}" by simp
  have rj: "resolved_wordlist no_default (Some japanese_like_wordlist) = Some japanese_like_wordlist"
    and rt: "resolved_wordlist no_default (Some test_wordlist) = Some test_wordlist"
    by (simp_all add: resolved_wordlist_def)
  have j: "entropyToMnemonic node no_default (EBuf (replicate 16 0)) (Some japanese_like_wordlist) =
     Some (Inr (join_with [0xE3, 0x80, 0x80]
       (replicate 11
          [0xE3, 0x81, 0x82, 0xE3, 0x81, 0x84, 0xE3, 0x81, 0x93, 0xE3, 0x81, 0x8F, 0xE3, 0x81,
           0x97, 0xE3, 0x82, 0x93] @
        [[0x61, 0x61, 0x61, 0x61]])))"
    unfolding entropyToMnemonic_separator [OF l rj]
    by (simp add: japanese_like_wordlist_def element_at_first JAPANESE_FIRST_WORD_def
        ideographic_space_bytes mnemonic_words_zero16
        japanese_first_word_bytes [unfolded JAPANESE_FIRST_WORD_def])
  have t: "entropyToMnemonic node no_default (EBuf (replicate 16 0)) (Some test_wordlist) =
     Some (Inr (join_with [0x20] (replicate 11 [0x61] @ [[0x61, 0x61, 0x61, 0x61]])))"
    unfolding entropyToMnemonic_separator [OF l rt]
    by (simp add: test_wordlist_def element_at_first space_bytes mnemonic_words_zero16
        unary_word_0_bytes) (simp add: unary_word_def)
  from l rj rt j t show ?thesis by simp
qed

text \<open>
  C3 as stated fails: with the first word that the claim names (its fourth letter is
  U+3046) the separator is the ASCII space, not U+3000.
\<close>

theorem entropyToMnemonic_separator_counterexample:
  "element_at spec_marked_wordlist (Some 0) =
     Some [0x3042, 0x3044, 0x3053, 0x3046, 0x3057, 0x3093] \<and>
   entropyToMnemonic node no_default (EBuf (replicate 16 0)) (Some spec_marked_wordlist) =
     Some (Inr (join_with [0x20]
       (replicate 11
          [0xE3, 0x81, 0x82, 0xE3, 0x81, 0x84, 0xE3, 0x81, 0x93, 0xE3, 0x81, 0x86, 0xE3, 0x81,
           0x97, 0xE3, 0x82, 0x93] @
        [[0x61, 0x61, 0x61, 0x61]]))) \<and>
   entropyToMnemonic node no_default (EBuf (replicate 16 0)) (Some spec_marked_wordlist) \<noteq>
     Some (Inr (join_with [0xE3, 0x80, 0x80]
       (replicate 11
          [0xE3, 0x81, 0x82, 0xE3, 0x81, 0x84, 0xE3, 0x81, 0x93, 0xE3, 0x81, 0x86, 0xE3, 0x81,
           0x97, 0xE3, 0x82, 0x93] @
        [[0x61, 0x61, 0x61, 0x61]])))"
proof -
  have r: "resolved_wordlist no_default (Some spec_marked_wordlist) =
      Some (SPEC_FIRST_WORD # more_words)"
    by (simp add: resolved_wordlist_def spec_marked_wordlist_def)
  have s: "utf8_bytes node (separator_of (SPEC_FIRST_WORD # more_words)) = [0x20]"
    by (simp add: separator_of_def element_at_first SPEC_FIRST_WORD_def JAPANESE_FIRST_WORD_def
        space_bytes)
  have e: "entropyToMnemonic node no_default (EBuf (replicate 16 0)) (Some spec_marked_wordlist) =
     Some (Inr (join_with [0x20]
       (replicate 11
          [0xE3, 0x81, 0x82, 0xE3, 0x81, 0x84, 0xE3, 0x81, 0x93, 0xE3, 0x81, 0x86, 0xE3, 0x81,
           0x97, 0xE3, 0x82, 0x93] @
        [[0x61, 0x61, 0x61, 0x61]])))"
    unfolding entropyToMnemonic_returns [OF r valid_entropy_length_16] s mnemonic_words_zero16
      spec_first_word_bytes ..
  have f: "element_at spec_marked_wordlist (Some 0) =
      Some [0x3042, 0x3044, 0x3053, 0x3046, 0x3057, 0x3093]"
    by (simp add: spec_marked_wordlist_def element_at_first SPEC_FIRST_WORD_def)
  show ?thesis unfolding e using f by (simp add: replicate_numeral)
qed

section \<open>\<open>validateMnemonic\<close>\<close>

text \<open>
  C4. \<open>validateMnemonic\<close> returns true exactly when \<open>mnemonicToEntropy\<close> on the same
  arguments returns, and false exactly when it throws, whatever it throws; it always
  returns one of the two.
\<close>

theorem validateMnemonic_iff_mnemonicToEntropy:
  "(validateMnemonic P s mnemonic wordlist = Some True) =
     (\<exists>entropy. mnemonicToEntropy P s (MStr mnemonic) wordlist = Some (Inr entropy)) \<and>
   (validateMnemonic P s mnemonic wordlist = Some False) =
     (\<exists>e. mnemonicToEntropy P s (MStr mnemonic) wordlist = Some (Inl e)) \<and>
   validateMnemonic P s mnemonic wordlist \<noteq> None"
proof -
  obtain r where r: "mnemonicToEntropy P s (MStr mnemonic) wordlist = Some r"
    using mnemonicToEntropy_returns [of P s "MStr mnemonic" wordlist] by auto
  show ?thesis
    by (cases r) (simp_all add: validateMnemonic_def r)
qed

section \<open>The length check of \<open>entropyToMnemonic\<close>\<close>

text \<open>
  C5, amended. When a wordlist is available (the argument or the default),
  \<open>entropyToMnemonic\<close> of a buffer of fewer than 16 bytes, more than 32 bytes or a number
  of bytes that 4 does not divide throws \<open>TypeError('Invalid entropy')\<close>, and of a buffer
  of 16, 20, 24, 28 or 32 bytes it throws no error with that message.
\<close>

theorem entropyToMnemonic_length_check:
  assumes "resolved_wordlist s wordlist = Some resolved"
  shows "(length entropy < 16 \<or> length entropy > 32 \<or> length entropy mod 4 \<noteq> 0 \<longrightarrow>
            entropyToMnemonic P s (EBuf entropy) wordlist =
              Some (Inl (TypeError INVALID_ENTROPY))) \<and>
         (length entropy \<in> {16, 20, 24, 28, 32} \<longrightarrow>
            \<not> raises_invalid_entropy (entropyToMnemonic P s (EBuf entropy) wordlist))"
proof (intro conjI impI)
  assume "length entropy < 16 \<or> length entropy > 32 \<or> length entropy mod 4 \<noteq> 0"
  with assms show "entropyToMnemonic P s (EBuf entropy) wordlist =
      Some (Inl (TypeError INVALID_ENTROPY))"
    by (rule entropyToMnemonic_invalid_length)
next
  assume "length entropy \<in> {16, 20, 24, 28, 32}"
  then have "valid_entropy_length (length entropy)" by (simp only: valid_entropy_length_iff)
  with assms have "entropyToMnemonic P s (EBuf entropy) wordlist =
    Some (Inr (join_with (utf8_bytes P (separator_of resolved)) (mnemonic_words P resolved entropy)))"
    by (rule entropyToMnemonic_returns)
  then show "\<not> raises_invalid_entropy (entropyToMnemonic P s (EBuf entropy) wordlist)"
    by (simp add: raises_invalid_entropy_def)
qed

theorem entropyToMnemonic_length_check_witness:
  "resolved_wordlist no_default (Some test_wordlist) = Some test_wordlist \<and>
   entropyToMnemonic node no_default (EBuf (replicate 15 0)) (Some test_wordlist) =
     Some (Inl (TypeError INVALID_ENTROPY)) \<and>
   entropyToMnemonic node no_default (EBuf (replicate 33 0)) (Some test_wordlist) =
     Some (Inl (TypeError INVALID_ENTROPY)) \<and>
   entropyToMnemonic node no_default (EBuf (replicate 17 0)) (Some test_wordlist) =
     Some (Inl (TypeError INVALID_ENTROPY)) \<and>
   \<not> raises_invalid_entropy
       (entropyToMnemonic node no_default (EBuf (replicate 16 0)) (Some test_wordlist))"
proof -
  have r: "resolved_wordlist no_default (Some test_wordlist) = Some test_wordlist"
    by (simp add: resolved_wordlist_def)
  note t = entropyToMnemonic_length_check [OF r, of _ node]
  from t [of "replicate 15 0"] t [of "replicate 33 0"] t [of "replicate 17 0"]
    t [of "replicate 16 0"] r
  show ?thesis by simp
qed

text \<open>
  C5 as stated fails: the wordlist is looked for before the length is checked, so without
  a wordlist a buffer of 15 bytes ends in the error for the missing wordlist.
\<close>

theorem entropyToMnemonic_length_check_counterexample:
  "length (replicate 15 (0 :: byte)) < 16 \<and>
   entropyToMnemonic node no_default (EBuf (replicate 15 0)) None =
     Some (Inl (Error WORDLIST_REQUIRED)) \<and>
   \<not> raises_invalid_entropy (entropyToMnemonic node no_default (EBuf (replicate 15 0)) None)"
  by (simp add: entropyToMnemonic_def no_default_def raises_invalid_entropy_def
      WORDLIST_REQUIRED_def INVALID_ENTROPY_def)

section \<open>The checksum bits\<close>

text \<open>
  C6. For an entropy buffer of \<open>N\<close> bytes, \<open>N\<close> one of 16, 20, 24, 28 and 32, and a hash
  of 256 bits, \<open>deriveChecksumBits\<close> returns the first \<open>(N * 8) / 32\<close> bits of the binary
  expansion of the hash of the buffer, a string of that many characters. It is a function
  of the buffer and of the platform's hash function alone.
\<close>

theorem deriveChecksumBits_first_bits:
  assumes "length entropy \<in> {16, 20, 24, 28, 32}"
    and "length (sha256 P entropy) = 32"
  shows "deriveChecksumBits P entropy =
           Some (first_bits (sha256 P entropy) (length entropy * 8 div 32)) \<and>
         length (first_bits (sha256 P entropy) (length entropy * 8 div 32)) =
           length entropy * 8 div 32"
proof -
  have "length entropy * 8 div 32 \<le> 8 * length (sha256 P entropy)"
    using assms by auto
  then show ?thesis
    by (simp add: deriveChecksumBits_eq checksum_bits_first_bits) (simp add: first_bits_def)
qed

theorem deriveChecksumBits_first_bits_witness:
  "length (replicate 16 (0 :: byte)) \<in> {16, 20, 24, 28, 32} \<and>
   length (sha256 node (replicate 16 0)) = 32 \<and>
   first_bits (sha256 node (replicate 16 0)) (length (replicate 16 (0 :: byte)) * 8 div 32) = ''0011'' \<and>
   deriveChecksumBits node (replicate 16 0) = Some ''0011''"
proof -
  have l: "length (replicate 16 (0 :: byte)) \<in> {16, 20, 24, 28, 32}" by simp
  have h: "length (sha256 node (replicate 16 0)) = 32" by (rule length_sha256_node)
  have upt4: "[0..<4] = [0, 1, 2, 3]" by (simp add: numeral_eq_Suc)
  have f: "first_bits (sha256 node (replicate 16 0)) (length (replicate 16 (0 :: byte)) * 8 div 32)
      = ''0011''"
    by (simp add: sha256_node_zero16 first_bits_def hash_bit_def upt4)
  from deriveChecksumBits_first_bits [OF l h] l h f show ?thesis by simp
qed

section \<open>The seed\<close>

text \<open>
  C7. For a mnemonic string \<open>m\<close> and an optional password \<open>p\<close>, \<open>mnemonicToSeedSync\<close> is
  PBKDF2 with the UTF-8 bytes of NFKD(\<open>m\<close>) as password, the UTF-8 bytes of \<open>mnemonic\<close>
  followed by NFKD(\<open>p\<close>) as salt (of \<open>mnemonic\<close> alone without a password), 2048
  iterations, 64 bytes and SHA-512; a mnemonic given as bytes is the password as it is.
  The platform's NFKD maps the empty string to itself.
\<close>

theorem mnemonicToSeedSync_pbkdf2:
  assumes "nfkd P [] = []"
  shows "mnemonicToSeedSync P (MStr m) p =
           pbkdf2Sync P (utf8_bytes P (nfkd P m))
             (utf8_bytes P (ascii ''mnemonic'' @ (case p of None \<Rightarrow> [] | Some q \<Rightarrow> nfkd P q)))
             2048 64 ''sha512'' \<and>
         mnemonicToSeedSync P (MBuf buf) p =
           pbkdf2Sync P buf
             (utf8_bytes P (ascii ''mnemonic'' @ (case p of None \<Rightarrow> [] | Some q \<Rightarrow> nfkd P q)))
             2048 64 ''sha512''"
proof -
  have m: "normalize_str P (Some m) = nfkd P m"
    by (simp add: normalize_str_def)
  have p: "salt (Some (normalize_str P p)) =
      ascii ''mnemonic'' @ (case p of None \<Rightarrow> [] | Some q \<Rightarrow> nfkd P q)"
    using assms by (cases p) (simp_all add: salt_def normalize_str_def)
  show ?thesis
    by (simp add: mnemonicToSeedSync_def m p)
qed

theorem mnemonicToSeedSync_pbkdf2_witness:
  "nfkd node [] = [] \<and>
   mnemonicToSeedSync node (MStr (ascii ''abandon about'')) None =
     pbkdf2Sync node (utf8_bytes node (nfkd node (ascii ''abandon about'')))
       [0x6d, 0x6e, 0x65, 0x6d, 0x6f, 0x6e, 0x69, 0x63] 2048 64 ''sha512'' \<and>
   mnemonicToSeedSync node (MBuf [0x61, 0x20, 0x62]) (Some (ascii ''TREZOR'')) =
     pbkdf2Sync node [0x61, 0x20, 0x62]
       [0x6d, 0x6e, 0x65, 0x6d, 0x6f, 0x6e, 0x69, 0x63, 0x54, 0x52, 0x45, 0x5a, 0x4f, 0x52]
       2048 64 ''sha512''"
proof -
  have h: "nfkd node [] = []"
    by (simp add: node_def nfkd_known_def)
  have s1: "utf8_bytes node (ascii ''mnemonic'') = [0x6d, 0x6e, 0x65, 0x6d, 0x6f, 0x6e, 0x69, 0x63]"
    by (simp add: node_def utf8_encode_def ascii_def)
  have s2: "utf8_bytes node (ascii ''mnemonic'' @ nfkd node (ascii ''TREZOR'')) =
      [0x6d, 0x6e, 0x65, 0x6d, 0x6f, 0x6e, 0x69, 0x63, 0x54, 0x52, 0x45, 0x5a, 0x4f, 0x52]"
    by (simp add: node_def utf8_encode_def ascii_def nfkd_known_def)
  from mnemonicToSeedSync_pbkdf2 [OF h, of "ascii ''abandon about''" None]
    mnemonicToSeedSync_pbkdf2 [OF h, of _ "Some (ascii ''TREZOR'')" "[0x61, 0x20, 0x62]"]
  show ?thesis
    using h s1 s2 by simp
qed

section \<open>\<open>generateMnemonic\<close>\<close>

text \<open>
  C8, amended. For a strength that is an integer multiple of 32 other than 0,
  \<open>generateMnemonic\<close> is \<open>entropyToMnemonic\<close> of what the random source returns for
  \<open>strength / 8\<close>; a strength that is omitted, 0 or \<open>NaN\<close> is taken as 128; for every other
  strength that is not an integer multiple of 32 (a fraction and an infinity included)
  the call throws \<open>TypeError('Invalid entropy')\<close> and the random source is left as it was.
\<close>

theorem generateMnemonic_delegates:
  "(n \<noteq> 0 \<and> 32 dvd n \<longrightarrow>
      generateMnemonic P s randomBytes (Some (Num (of_int n))) rng wordlist g =
        (entropyToMnemonic P s
           (EBuf (fst (chosen_rng randomBytes rng (Num (of_int (n div 8))) g))) wordlist,
         snd (chosen_rng randomBytes rng (Num (of_int (n div 8))) g))) \<and>
   generateMnemonic P s randomBytes None rng wordlist g =
     generateMnemonic P s randomBytes (Some (Num 128)) rng wordlist g \<and>
   generateMnemonic P s randomBytes (Some (Num 0)) rng wordlist g =
     generateMnemonic P s randomBytes (Some (Num 128)) rng wordlist g \<and>
   generateMnemonic P s randomBytes (Some NaN) rng wordlist g =
     generateMnemonic P s randomBytes (Some (Num 128)) rng wordlist g \<and>
   (strength \<noteq> NaN \<and> \<not> multiple_of_32 strength \<longrightarrow>
      generateMnemonic P s randomBytes (Some strength) rng wordlist g =
        (Some (Inl (TypeError INVALID_ENTROPY)), g))"
proof (intro conjI impI)
  assume a: "n \<noteq> 0 \<and> 32 dvd n"
  then obtain m where n: "n = 32 * m" by (auto elim: dvdE)
  have q: "js_quot (Num (of_int n)) 8 = Num (of_int (n div 8))"
    using js_quot_integer [of "4 * m"] by (simp add: n)
  have m: "multiple_of_32 (Num (of_int n))" using a by (auto simp: multiple_of_32_iff)
  have nz: "Num (of_int n) \<noteq> Num 0" using a by simp
  show "generateMnemonic P s randomBytes (Some (Num (of_int n))) rng wordlist g =
      (entropyToMnemonic P s
         (EBuf (fst (chosen_rng randomBytes rng (Num (of_int (n div 8))) g))) wordlist,
       snd (chosen_rng randomBytes rng (Num (of_int (n div 8))) g))"
    using generateMnemonic_truthy [OF m nz, of P s randomBytes rng wordlist g] unfolding q .
next
  show "generateMnemonic P s randomBytes None rng wordlist g =
      generateMnemonic P s randomBytes (Some (Num 128)) rng wordlist g"
    by (rule generateMnemonic_falsy(1))
next
  show "generateMnemonic P s randomBytes (Some (Num 0)) rng wordlist g =
      generateMnemonic P s randomBytes (Some (Num 128)) rng wordlist g"
    by (rule generateMnemonic_falsy(2))
next
  show "generateMnemonic P s randomBytes (Some NaN) rng wordlist g =
      generateMnemonic P s randomBytes (Some (Num 128)) rng wordlist g"
    by (rule generateMnemonic_falsy(3))
next
  assume "strength \<noteq> NaN \<and> \<not> multiple_of_32 strength"
  then show "generateMnemonic P s randomBytes (Some strength) rng wordlist g =
      (Some (Inl (TypeError INVALID_ENTROPY)), g)"
    using generateMnemonic_not_multiple [of strength P s randomBytes rng wordlist g] by simp
qed

theorem generateMnemonic_delegates_witness:
  "(256 :: int) \<noteq> 0 \<and> (32 :: int) dvd 256 \<and>
   generateMnemonic node no_default zero_rng (Some (Num 256)) (Some zero_rng) (Some test_wordlist) 0 =
     (entropyToMnemonic node no_default (EBuf (replicate 32 0)) (Some test_wordlist), 1) \<and>
   generateMnemonic node no_default zero_rng None (Some zero_rng) (Some test_wordlist) 0 =
     generateMnemonic node no_default zero_rng (Some (Num 128)) (Some zero_rng) (Some test_wordlist) 0 \<and>
   generateMnemonic node no_default zero_rng (Some (Num 0)) (Some zero_rng) (Some test_wordlist) 0 =
     generateMnemonic node no_default zero_rng (Some (Num 128)) (Some zero_rng) (Some test_wordlist) 0 \<and>
   generateMnemonic node no_default zero_rng (Some NaN) (Some zero_rng) (Some test_wordlist) 0 =
     generateMnemonic node no_default zero_rng (Some (Num 128)) (Some zero_rng) (Some test_wordlist) 0 \<and>
   Num 100 \<noteq> NaN \<and> \<not> multiple_of_32 (Num 100) \<and>
   generateMnemonic node no_default zero_rng (Some (Num 100)) (Some zero_rng) (Some test_wordlist) 0 =
     (Some (Inl (TypeError INVALID_ENTROPY)), 0) \<and>
   Num (257 / 2) \<noteq> NaN \<and> \<not> multiple_of_32 (Num (257 / 2)) \<and>
   generateMnemonic node no_default zero_rng (Some (Num (257 / 2))) (Some zero_rng)
       (Some test_wordlist) 0 =
     (Some (Inl (TypeError INVALID_ENTROPY)), 0) \<and>
   PosInfinity \<noteq> NaN \<and> \<not> multiple_of_32 PosInfinity \<and>
   generateMnemonic node no_default zero_rng (Some PosInfinity) (Some zero_rng)
       (Some test_wordlist) 0 =
     (Some (Inl (TypeError INVALID_ENTROPY)), 0)"
proof -
  have c: "chosen_rng zero_rng (Some zero_rng) (Num 32) 0 = (replicate 32 0, 1)"
    by (simp add: chosen_rng_def zero_rng_def)
  have f: "\<lfloor>(25 :: rat) / 8\<rfloor> = 3" "\<lfloor>(257 :: rat) / 64\<rfloor> = 4"
    by (simp_all add: floor_eq_iff)
  have m: "\<not> multiple_of_32 (Num 100)" "\<not> multiple_of_32 (Num (257 / 2))"
    "\<not> multiple_of_32 PosInfinity"
    by (simp_all add: multiple_of_32_def f)
  note t = generateMnemonic_delegates
      [of _ node no_default zero_rng "Some zero_rng" "Some test_wordlist" 0]
  from t [of 256 "Num 100"] t [of 256 "Num (257 / 2)"] t [of 256 PosInfinity] m
  show ?thesis by (simp add: c)
qed

text \<open>
  C8 as stated fails at strength 0, which 32 divides: the call asks the random source
  for 16 bytes and returns their mnemonic, where \<open>entropyToMnemonic\<close> of the 0 bytes the
  source returns for \<open>0 / 8\<close> throws. It fails at the strength \<open>NaN\<close> too, which is no
  multiple of 32: the call does not throw, it returns the same mnemonic.
\<close>

theorem generateMnemonic_delegates_counterexample:
  "(32 :: int) dvd 0 \<and>
   generateMnemonic node no_default zero_rng (Some (Num 0)) (Some zero_rng) (Some test_wordlist) 0 =
     (Some (Inr (join_with [0x20] (replicate 11 [0x61] @ [[0x61, 0x61, 0x61, 0x61]]))), 1) \<and>
   zero_rng (js_quot (Num 0) 8) 0 = ([], 1) \<and>
   entropyToMnemonic node no_default (EBuf []) (Some test_wordlist) =
     Some (Inl (TypeError INVALID_ENTROPY)) \<and>
   \<not> multiple_of_32 NaN \<and>
   generateMnemonic node no_default zero_rng (Some NaN) (Some zero_rng) (Some test_wordlist) 0 =
     (Some (Inr (join_with [0x20] (replicate 11 [0x61] @ [[0x61, 0x61, 0x61, 0x61]]))), 1)"
proof -
  have r: "resolved_wordlist no_default (Some test_wordlist) = Some (unary_word 0 # more_words)"
    by (simp add: resolved_wordlist_def test_wordlist_def)
  have v: "valid_entropy_length (length (replicate 16 (0 :: byte)))"
    by (simp add: valid_entropy_length_def)
  have w: "utf8_bytes node (normalize_str node (Some (unary_word 0))) = [0x61]"
    by (rule unary_word_0_bytes)
  have s: "utf8_bytes node (separator_of (unary_word 0 # more_words)) = [0x20]"
    by (simp add: separator_of_def element_at_first unary_word_def JAPANESE_FIRST_WORD_def
        space_bytes)
  have e: "entropyToMnemonic node no_default (EBuf (replicate 16 0)) (Some test_wordlist) =
      Some (Inr (join_with [0x20] (replicate 11 [0x61] @ [[0x61, 0x61, 0x61, 0x61]])))"
    unfolding entropyToMnemonic_returns [OF r v] s mnemonic_words_zero16 w ..
  have q: "js_quot (Num 128) 8 = Num 16" "js_quot (Num 0) 8 = Num 0"
    by (simp_all add: js_quot_def)
  have z: "zero_rng (Num 16) 0 = (replicate 16 0, 1)" "zero_rng (Num 0) 0 = ([], 1)"
    by (simp_all add: zero_rng_def)
  have g: "generateMnemonic node no_default zero_rng (Some (Num 128)) (Some zero_rng)
      (Some test_wordlist) 0 =
      (entropyToMnemonic node no_default (EBuf (replicate 16 0)) (Some test_wordlist), 1)"
    by (simp add: generateMnemonic_128 chosen_rng_def z)
  have b: "entropyToMnemonic node no_default (EBuf []) (Some test_wordlist) =
      Some (Inl (TypeError INVALID_ENTROPY))"
    by (simp add: entropyToMnemonic_def)
  show ?thesis by (simp add: generateMnemonic_falsy g e b q z multiple_of_32_def)
qed

section \<open>The default wordlist\<close>

text \<open>
  C9, amended. After a successful \<open>setDefaultWordlist("ES")\<close>, \<open>getDefaultWordlist()\<close>
  returns the first registered language, other than \<open>JA\<close> and \<open>EN\<close>, whose wordlist is the
  beginning of the current default, word for word; that language is \<open>ES\<close> when no
  language registered before \<open>ES\<close> has such a wordlist.
\<close>

theorem getDefaultWordlist_after_setDefaultWordlist:
  assumes "setDefaultWordlist s ''ES'' = Inr s'"
  shows "getDefaultWordlist s' = Inr (List.find (begins_default s') (map fst (wordlists s'))) \<and>
    (\<not> list_ex (begins_default s') (takeWhile (\<lambda>lang. lang \<noteq> ''ES'') (map fst (wordlists s'))) \<longrightarrow>
       getDefaultWordlist s' = Inr (Some ''ES''))"
proof -
  from assms obtain es where es: "map_of (wordlists s) ''ES'' = Some es"
    and s': "s' = s\<lparr>DEFAULT_WORDLIST := Some es\<rparr>"
    by (auto simp: setDefaultWordlist_def split: option.splits)
  have d: "DEFAULT_WORDLIST s' = Some es" and w: "wordlists s' = wordlists s"
    by (simp_all add: s')
  have f: "getDefaultWordlist s' = Inr (List.find (begins_default s') (map fst (wordlists s')))"
    using d by (rule getDefaultWordlist_find)
  have mem: "''ES'' \<in> set (map fst (wordlists s'))"
    using es w by (metis map_of_eq_None_iff option.distinct(1) set_map)
  have self: "begins_default s' ''ES''"
    by (simp add: begins_default_def d w es)
  show ?thesis
    using f find_first [of "''ES''" "map fst (wordlists s')" "begins_default s'", OF mem self]
    by simp
qed

theorem getDefaultWordlist_after_setDefaultWordlist_witness:
  "setDefaultWordlist plain_registry ''ES'' = Inr (plain_registry\<lparr>DEFAULT_WORDLIST := Some es_words\<rparr>) \<and>
   \<not> list_ex (begins_default (plain_registry\<lparr>DEFAULT_WORDLIST := Some es_words\<rparr>))
       (takeWhile (\<lambda>lang. lang \<noteq> ''ES'')
          (map fst (wordlists (plain_registry\<lparr>DEFAULT_WORDLIST := Some es_words\<rparr>)))) \<and>
   getDefaultWordlist (plain_registry\<lparr>DEFAULT_WORDLIST := Some es_words\<rparr>) = Inr (Some ''ES'')"
proof -
  have set: "setDefaultWordlist plain_registry ''ES'' =
      Inr (plain_registry\<lparr>DEFAULT_WORDLIST := Some es_words\<rparr>)"
    by (simp add: setDefaultWordlist_def plain_registry_def)
  have none: "\<not> list_ex (begins_default (plain_registry\<lparr>DEFAULT_WORDLIST := Some es_words\<rparr>))
       (takeWhile (\<lambda>lang. lang \<noteq> ''ES'')
          (map fst (wordlists (plain_registry\<lparr>DEFAULT_WORDLIST := Some es_words\<rparr>))))"
    by (simp add: plain_registry_def begins_default_def es_words_def ascii_def
        JAPANESE_FIRST_WORD_def)
  from getDefaultWordlist_after_setDefaultWordlist [OF set] none set
  show ?thesis by blast
qed

text \<open>
  C9 as stated fails: with \<open>ES\<close> registered after an alias of the same wordlist the answer
  is the alias, and with a shorter list registered before it the answer is a language
  whose wordlist is not the default.
\<close>

theorem getDefaultWordlist_counterexample:
  "setDefaultWordlist alias_registry ''ES'' = Inr (alias_registry\<lparr>DEFAULT_WORDLIST := Some es_words\<rparr>) \<and>
   getDefaultWordlist (alias_registry\<lparr>DEFAULT_WORDLIST := Some es_words\<rparr>) = Inr (Some ''spanish'') \<and>
   setDefaultWordlist short_registry ''ES'' = Inr (short_registry\<lparr>DEFAULT_WORDLIST := Some es_words\<rparr>) \<and>
   getDefaultWordlist (short_registry\<lparr>DEFAULT_WORDLIST := Some es_words\<rparr>) = Inr (Some ''XX'') \<and>
   map_of (wordlists short_registry) ''XX'' = Some [ascii ''abaco''] \<and>
   [ascii ''abaco''] \<noteq> es_words"
  by (simp add: setDefaultWordlist_def getDefaultWordlist_def alias_registry_def
      short_registry_def es_words_def every_word_equal_def ascii_def)

section \<open>\<open>generateMnemonic\<close> with strength 0\<close>

text \<open>
  C10, amended. \<open>generateMnemonic\<close> with strength 0 is \<open>generateMnemonic\<close> with strength
  128: the call asks the random source for 16 bytes and returns what \<open>entropyToMnemonic\<close>
  returns for them. When a wordlist is available and the random source returns 16 bytes,
  the call does not fail and returns the mnemonic of these bytes, twelve words joined by
  the separator of the wordlist.
\<close>

theorem generateMnemonic_zero_strength:
  "generateMnemonic P s randomBytes (Some (Num 0)) rng wordlist g =
     generateMnemonic P s randomBytes (Some (Num 128)) rng wordlist g \<and>
   generateMnemonic P s randomBytes (Some (Num 0)) rng wordlist g =
     (entropyToMnemonic P s (EBuf (fst (chosen_rng randomBytes rng (Num 16) g))) wordlist,
      snd (chosen_rng randomBytes rng (Num 16) g)) \<and>
   (resolved_wordlist s wordlist = Some resolved \<and>
    length (fst (chosen_rng randomBytes rng (Num 16) g)) = 16 \<longrightarrow>
      fst (generateMnemonic P s randomBytes (Some (Num 0)) rng wordlist g) =
        Some (Inr (join_with (utf8_bytes P (separator_of resolved))
                     (mnemonic_words P resolved (fst (chosen_rng randomBytes rng (Num 16) g))))) \<and>
      length (mnemonic_words P resolved (fst (chosen_rng randomBytes rng (Num 16) g))) = 12)"
proof (intro conjI impI)
  let ?bytes = "fst (chosen_rng randomBytes rng (Num 16) g)"
  show z: "generateMnemonic P s randomBytes (Some (Num 0)) rng wordlist g =
      generateMnemonic P s randomBytes (Some (Num 128)) rng wordlist g"
    by (rule generateMnemonic_falsy(2))
  show e: "generateMnemonic P s randomBytes (Some (Num 0)) rng wordlist g =
      (entropyToMnemonic P s (EBuf ?bytes) wordlist, snd (chosen_rng randomBytes rng (Num 16) g))"
    unfolding z by (rule generateMnemonic_128)
  assume a: "resolved_wordlist s wordlist = Some resolved \<and> length ?bytes = 16"
  then have v: "valid_entropy_length (length ?bytes)" by (simp add: valid_entropy_length_def)
  show "fst (generateMnemonic P s randomBytes (Some (Num 0)) rng wordlist g) =
      Some (Inr (join_with (utf8_bytes P (separator_of resolved)) (mnemonic_words P resolved ?bytes)))"
    unfolding e using entropyToMnemonic_returns [OF conjunct1 [OF a] v] by simp
  show "length (mnemonic_words P resolved ?bytes) = 12"
    using a by (intro length_mnemonic_words_16) simp
qed

theorem generateMnemonic_zero_strength_witness:
  "generateMnemonic node no_default zero_rng (Some (Num 0)) None (Some test_wordlist) 0 =
     generateMnemonic node no_default zero_rng (Some (Num 128)) None (Some test_wordlist) 0 \<and>
   generateMnemonic node no_default zero_rng (Some (Num 0)) None (Some test_wordlist) 0 =
     (entropyToMnemonic node no_default (EBuf (replicate 16 0)) (Some test_wordlist), 1) \<and>
   resolved_wordlist no_default (Some test_wordlist) = Some test_wordlist \<and>
   length (fst (chosen_rng zero_rng None (Num 16) (0 :: nat))) = 16 \<and>
   fst (generateMnemonic node no_default zero_rng (Some (Num 0)) None (Some test_wordlist) 0) =
     Some (Inr (join_with [0x20] (replicate 11 [0x61] @ [[0x61, 0x61, 0x61, 0x61]]))) \<and>
   length (mnemonic_words node test_wordlist (fst (chosen_rng zero_rng None (Num 16) (0 :: nat)))) =
     12"
proof -
  have r: "resolved_wordlist no_default (Some test_wordlist) = Some test_wordlist"
    by (simp add: resolved_wordlist_def)
  have c: "chosen_rng zero_rng None (Num 16) (0 :: nat) = (replicate 16 0, 1)"
    by (simp add: chosen_rng_def zero_rng_def)
  have s: "utf8_bytes node (separator_of test_wordlist) = [0x20]"
    by (simp add: test_wordlist_def separator_of_def element_at_first unary_word_def
        JAPANESE_FIRST_WORD_def space_bytes)
  have w: "mnemonic_words node test_wordlist (replicate 16 0) =
      replicate 11 [0x61] @ [[0x61, 0x61, 0x61, 0x61]]"
    unfolding test_wordlist_def mnemonic_words_zero16 unary_word_0_bytes ..
  note t = generateMnemonic_zero_strength
      [of node no_default zero_rng None "Some test_wordlist" 0 test_wordlist]
  from t have same: "generateMnemonic node no_default zero_rng (Some (Num 0)) None
        (Some test_wordlist) 0 =
      generateMnemonic node no_default zero_rng (Some (Num 128)) None (Some test_wordlist) 0"
    by (rule conjunct1)
  have delegated: "generateMnemonic node no_default zero_rng (Some (Num 0)) None
        (Some test_wordlist) 0 =
      (entropyToMnemonic node no_default (EBuf (replicate 16 0)) (Some test_wordlist), 1)"
    using conjunct1 [OF conjunct2 [OF t]] unfolding c fst_conv snd_conv .
  have h: "resolved_wordlist no_default (Some test_wordlist) = Some test_wordlist \<and>
      length (fst (chosen_rng zero_rng None (Num 16) (0 :: nat))) = 16"
    using r by (simp add: c)
  from conjunct2 [OF conjunct2 [OF t]] h
  have d: "fst (generateMnemonic node no_default zero_rng (Some (Num 0)) None
        (Some test_wordlist) 0) =
      Some (Inr (join_with (utf8_bytes node (separator_of test_wordlist))
                   (mnemonic_words node test_wordlist
                      (fst (chosen_rng zero_rng None (Num 16) (0 :: nat)))))) \<and>
      length (mnemonic_words node test_wordlist
                (fst (chosen_rng zero_rng None (Num 16) (0 :: nat)))) = 12"
    by (rule mp)
  from conjunct1 [OF d]
  have words: "fst (generateMnemonic node no_default zero_rng (Some (Num 0)) None
        (Some test_wordlist) 0) =
      Some (Inr (join_with [0x20] (replicate 11 [0x61] @ [[0x61, 0x61, 0x61, 0x61]])))"
    unfolding c fst_conv s w .
  from same delegated h words conjunct2 [OF d] show ?thesis by (intro conjI) simp_all
qed

text \<open>
  C10 as stated fails, the call can fail: without a wordlist, argument or default, it
  throws the error for the missing wordlist, and with a random source that returns no
  byte it throws \<open>TypeError('Invalid entropy')\<close>.
\<close>

theorem generateMnemonic_zero_strength_counterexample:
  "generateMnemonic node no_default zero_rng (Some (Num 0)) (Some zero_rng) None 0 =
     (Some (Inl (Error WORDLIST_REQUIRED)), 1) \<and>
   generateMnemonic node no_default zero_rng (Some (Num 0)) (Some empty_rng) (Some test_wordlist) 0 =
     (Some (Inl (TypeError INVALID_ENTROPY)), 1)"
  by (simp add: generateMnemonic_falsy(2) generateMnemonic_128 chosen_rng_def zero_rng_def
      empty_rng_def entropyToMnemonic_def no_default_def)

end
